theory Spec2Isabelle
  imports Main "HOL-Library.Sublist"
begin

section \<open>The repository reset script \<open>scripts/reset_test_project.py\<close>\<close>

text \<open>
  The script drives the Git command-line tool as a child process and decides, from what
  each command reports, whether to go on, to fall back or to stop. Git itself and the
  operating system are not part of the script: they enter the model as parameters.
  Strings are lists of 8-bit characters, so the model covers text whose code points are
  below 256.
\<close>

subsection \<open>Child processes\<close>

text \<open>
  What one call of \<^verbatim>\<open>subprocess.run(cmd, cwd=cwd, capture_output=True, text=True)\<close>
  can do: the child runs to its end (return code, standard output, standard error), or
  the executable is not found (\<^verbatim>\<open>FileNotFoundError\<close>), or another exception is raised
  (a decoding error, a permission error).
\<close>

datatype proc_result =
    Completed int string string
  | FileNotFoundError
  | OtherException

text \<open>
  The environment answers a command line in a working directory from its current state
  (the repository on disk, the remote) and moves to a new state.
\<close>

type_synonym 'w exec = "'w \<Rightarrow> string list \<Rightarrow> string \<Rightarrow> proc_result \<times> 'w"

type_synonym call = "string list \<times> proc_result"

text \<open>The four lines of the script that print \<^verbatim>\<open>Warning: ...\<close> to standard error.\<close>

datatype warning =
    DropFailed
  | FetchFailed string
  | CleanFailed
  | DeleteFailed string

text \<open>
  The state threaded through a run: the environment, every command line handed to
  \<^verbatim>\<open>subprocess.run\<close> so far with what came back, and the warnings printed so far.
\<close>

record 'w run_state =
  world :: 'w
  trace :: "call list"
  warnings :: "warning list"

definition initial_state :: "'w \<Rightarrow> 'w run_state" where
  "initial_state w = \<lparr>world = w, trace = [], warnings = []\<rparr>"

definition warn :: "warning \<Rightarrow> 'w run_state \<Rightarrow> 'w run_state" where
  "warn m s = s\<lparr>warnings := warnings s @ [m]\<rparr>"

text \<open>
  A Python call either returns a value, or leaves through \<^verbatim>\<open>sys.exit(n)\<close>, or
  leaves through an exception that nothing in the script catches.
\<close>

datatype 'a outcome =
    Returned 'a
  | SysExit int
  | Uncaught

definition then_run ::
  "'a outcome \<times> 's \<Rightarrow> ('a \<Rightarrow> 's \<Rightarrow> 'b outcome \<times> 's) \<Rightarrow> 'b outcome \<times> 's" where
  "then_run m k =
     (case m of
        (Returned a, s) \<Rightarrow> k a s
      | (SysExit n, s) \<Rightarrow> (SysExit n, s)
      | (Uncaught, s) \<Rightarrow> (Uncaught, s))"

text \<open>
  The path \<^verbatim>\<open>C:\Program Files\Git\cmd\git.exe\<close>; the separator is character 92.
\<close>

definition GIT_EXECUTABLE :: string where
  "GIT_EXECUTABLE =
     ''C:'' @ [CHR 0x5C] @ ''Program Files'' @ [CHR 0x5C] @ ''Git'' @ [CHR 0x5C] @ ''cmd''
       @ [CHR 0x5C] @ ''git.exe''"

definition subprocess_run ::
  "'w exec \<Rightarrow> string list \<Rightarrow> string \<Rightarrow> 'w run_state \<Rightarrow> proc_result \<times> 'w run_state" where
  "subprocess_run exec cmd cwd s =
     (case exec (world s) cmd cwd of
        (r, w') \<Rightarrow> (r, s\<lparr>world := w', trace := trace s @ [(cmd, r)]\<rparr>))"

subsection \<open>The string methods the script uses\<close>

text \<open>\<^verbatim>\<open>str.isspace\<close> on code points below 256.\<close>

definition isspace :: "char \<Rightarrow> bool" where
  "isspace c =
     (let n = (of_char c :: nat)
      in (9 \<le> n \<and> n \<le> 13) \<or> (28 \<le> n \<and> n \<le> 32) \<or> n = 133 \<or> n = 160)"

definition strip :: "string \<Rightarrow> string" where
  "strip s = rev (dropWhile isspace (rev (dropWhile isspace s)))"

text \<open>The line boundaries of \<^verbatim>\<open>str.splitlines\<close> below 256, \<^verbatim>\<open>\r\n\<close> counting once.\<close>

definition is_linebreak :: "char \<Rightarrow> bool" where
  "is_linebreak c =
     (let n = (of_char c :: nat)
      in (10 \<le> n \<and> n \<le> 13) \<or> (28 \<le> n \<and> n \<le> 30) \<or> n = 133)"

fun splitlines_from :: "string \<Rightarrow> string \<Rightarrow> string list" where
  "splitlines_from cur [] = (if cur = [] then [] else [cur])"
| "splitlines_from cur (c # cs) =
     (case cs of
        [] \<Rightarrow> (if is_linebreak c then [cur] else [cur @ [c]])
      | d # ds \<Rightarrow>
          (if of_char c = (13 :: nat) \<and> of_char d = (10 :: nat) then cur # splitlines_from [] ds
           else if is_linebreak c then cur # splitlines_from [] cs
           else splitlines_from (cur @ [c]) cs))"

definition splitlines :: "string \<Rightarrow> string list" where
  "splitlines s = splitlines_from [] s"

text \<open>\<^verbatim>\<open>b.replace('* ', '')\<close>: every occurrence, left to right, without overlap.\<close>

fun replace_marker :: "string \<Rightarrow> string" where
  "replace_marker [] = []"
| "replace_marker [c] = [c]"
| "replace_marker (c # d # cs) =
     (if c = CHR ''*'' \<and> d = CHR '' '' then replace_marker cs
      else c # replace_marker (d # cs))"

text \<open>\<^verbatim>\<open>sub in s\<close> for strings.\<close>

fun str_contains :: "string \<Rightarrow> string \<Rightarrow> bool" where
  "str_contains sub [] = (sub = [])"
| "str_contains sub (c # cs) = (prefix sub (c # cs) \<or> str_contains sub cs)"

subsection \<open>\<open>run_command\<close>\<close>

text \<open>\<^verbatim>\<open>' '.join(cmd)\<close>.\<close>

fun join_spaces :: "string list \<Rightarrow> string" where
  "join_spaces [] = []"
| "join_spaces [x] = x"
| "join_spaces (x # y # ys) = x @ '' '' @ join_spaces (y # ys)"

text \<open>
  Standard output, as far as the script can tell: whether \<^verbatim>\<open>print\<close> writes a line or
  raises (a line that the encoding of the stream cannot hold, a closed stream). Standard
  error is not a parameter: Python writes it with \<^verbatim>\<open>backslashreplace\<close>, which
  refuses no character, and the model takes it to hold every line.
\<close>

type_synonym 'w stdout = "'w \<Rightarrow> string \<Rightarrow> bool"

text \<open>
  The command runner. \<^verbatim>\<open>git\<close> in first position becomes the full path.
  \<^verbatim>\<open>cmd[0]\<close> is read, and the command line is printed (line 18), before the
  \<^verbatim>\<open>try\<close>: an empty command line raises \<^verbatim>\<open>IndexError\<close>, and a line that standard
  output does not take raises, to the caller, and the child is not run. The child is run
  with \<^verbatim>\<open>check=True\<close>, so a return code other than 0 raises
  \<^verbatim>\<open>CalledProcessError\<close>, which is caught and answered with \<^verbatim>\<open>None\<close>;
  \<^verbatim>\<open>FileNotFoundError\<close> ends the process with \<^verbatim>\<open>sys.exit(1)\<close>; any other exception
  is answered with \<^verbatim>\<open>None\<close>, and so is the exception of a \<^verbatim>\<open>print\<close> of the
  output (line 24), which stands inside the \<^verbatim>\<open>try\<close>. On success the stripped
  standard output is returned.
\<close>

definition run_command ::
  "'w stdout \<Rightarrow> 'w exec \<Rightarrow> string list \<Rightarrow> string \<Rightarrow> 'w run_state
     \<Rightarrow> string option outcome \<times> 'w run_state" where
  "run_command out exec cmd cwd s =
     (case cmd of
        [] \<Rightarrow> (Uncaught, s)
      | c # cs \<Rightarrow>
          (let full = (if c = ''git'' then GIT_EXECUTABLE # cs else cmd) in
           if \<not> out (world s) (''Running in '' @ cwd @ '': '' @ join_spaces full)
           then (Uncaught, s)
           else
             (case subprocess_run exec full cwd s of
                (Completed rc stdout stderr, s') \<Rightarrow>
                  (if rc = 0 then
                     (if list_all (out (world s')) (splitlines stdout)
                      then (Returned (Some (strip stdout)), s')
                      else (Returned None, s'))
                   else (Returned None, s'))
              | (FileNotFoundError, s') \<Rightarrow> (SysExit 1, s')
              | (OtherException, s') \<Rightarrow> (Returned None, s'))))"

text \<open>
  The functions below are modelled on a standard output that takes every line: their own
  \<^verbatim>\<open>print\<close> calls are left out, and they call \<open>run_command\<close> with this stream.
\<close>

definition takes_every_line :: "'w stdout" where
  "takes_every_line w line = True"

subsection \<open>\<open>get_main_branch_name\<close>\<close>

definition get_main_branch_name ::
  "'w exec \<Rightarrow> string \<Rightarrow> 'w run_state \<Rightarrow> string option outcome \<times> 'w run_state" where
  "get_main_branch_name exec repo_path s =
     then_run
       (run_command takes_every_line exec
          [''git'', ''show-ref'', ''--verify'', ''--quiet'', ''refs/heads/main''] repo_path s)
       (\<lambda>r1 s1.
          if r1 \<noteq> None then (Returned (Some ''main''), s1)
          else
            then_run
              (run_command takes_every_line exec
                 [''git'', ''show-ref'', ''--verify'', ''--quiet'', ''refs/heads/master'']
                 repo_path s1)
              (\<lambda>r2 s2.
                 if r2 \<noteq> None then (Returned (Some ''master''), s2)
                 else (Returned None, s2)))"

subsection \<open>\<open>reset_repository\<close>\<close>

text \<open>
  The Python function returns \<^verbatim>\<open>None\<close> from every one of its \<^verbatim>\<open>return\<close>
  statements and from its end. The model's value says which of them was taken: the check
  at line 60, the missing main branch (line 70), the failed checkout (line 92), the
  unconfirmed checkout (line 98), the failed hard reset (line 114), or the end of the
  function (line 153) with the two counters of the branch loop when that loop ran.
\<close>

datatype run_end =
    NotARepository
  | NoMainBranch
  | CheckoutFailed
  | CheckoutUnconfirmed
  | HardResetFailed
  | ResetComplete "(nat \<times> string list) option"

text \<open>
  The function is one sequence of numbered steps. Each definition below is the function
  from one step comment to its end, so the last step comes first.
\<close>

text \<open>
  Step 7, the loop over \<^verbatim>\<open>branches\<close> (lines 132 to 144) with its two local
  variables \<^verbatim>\<open>deleted_count\<close> and \<^verbatim>\<open>failed_deletions\<close>.
\<close>

fun delete_loop ::
  "'w exec \<Rightarrow> string \<Rightarrow> string \<Rightarrow> string list \<Rightarrow> nat \<times> string list \<Rightarrow> 'w run_state
     \<Rightarrow> (nat \<times> string list) outcome \<times> 'w run_state" where
  "delete_loop exec repo_path main_branch [] acc s = (Returned acc, s)"
| "delete_loop exec repo_path main_branch (branch_name # rest) (deleted_count, failed_deletions) s =
     (if branch_name \<noteq> main_branch then
        (case run_command takes_every_line exec [''git'', ''branch'', ''-D'', branch_name] repo_path s of
           (Returned (Some out), s1) \<Rightarrow>
             delete_loop exec repo_path main_branch rest (deleted_count + 1, failed_deletions) s1
         | (Returned None, s1) \<Rightarrow>
             (case run_command takes_every_line exec [''git'', ''branch'', ''-d'', branch_name] repo_path s1 of
                (Returned (Some out), s2) \<Rightarrow>
                  delete_loop exec repo_path main_branch rest
                    (deleted_count + 1, failed_deletions) s2
              | (Returned None, s2) \<Rightarrow>
                  delete_loop exec repo_path main_branch rest
                    (deleted_count, failed_deletions @ [branch_name])
                    (warn (DeleteFailed branch_name) s2)
              | (SysExit n, s2) \<Rightarrow> (SysExit n, s2)
              | (Uncaught, s2) \<Rightarrow> (Uncaught, s2))
         | (SysExit n, s1) \<Rightarrow> (SysExit n, s1)
         | (Uncaught, s1) \<Rightarrow> (Uncaught, s1))
      else delete_loop exec repo_path main_branch rest (deleted_count, failed_deletions) s)"

text \<open>Line 129: the branch names read from the listing.\<close>

definition branches_of :: "string \<Rightarrow> string list" where
  "branches_of branches_output =
     map (\<lambda>b. replace_marker (strip b)) (filter (\<lambda>b. strip b \<noteq> []) (splitlines branches_output))"

text \<open>Step 7 (lines 124 to 153). \<^verbatim>\<open>if branches_output:\<close> is false for \<^verbatim>\<open>None\<close> and for the empty string.\<close>

definition delete_other_branches ::
  "'w exec \<Rightarrow> string \<Rightarrow> string \<Rightarrow> 'w run_state \<Rightarrow> run_end outcome \<times> 'w run_state" where
  "delete_other_branches exec repo_path main_branch s =
     then_run (run_command takes_every_line exec [''git'', ''branch''] repo_path s)
       (\<lambda>branches_output s1.
          (case branches_output of
             None \<Rightarrow> (Returned (ResetComplete None), s1)
           | Some listing \<Rightarrow>
               if listing \<noteq> [] then
                 then_run
                   (delete_loop exec repo_path main_branch (branches_of listing) (0, []) s1)
                   (\<lambda>counters s2. (Returned (ResetComplete (Some counters)), s2))
               else (Returned (ResetComplete None), s1)))"

text \<open>Step 6 (lines 117 to 121), then step 7.\<close>

definition reset_from_clean ::
  "'w exec \<Rightarrow> string \<Rightarrow> string \<Rightarrow> 'w run_state \<Rightarrow> run_end outcome \<times> 'w run_state" where
  "reset_from_clean exec repo_path main_branch s =
     then_run (run_command takes_every_line exec [''git'', ''clean'', ''-fdx''] repo_path s)
       (\<lambda>r s1.
          delete_other_branches exec repo_path main_branch
            (if r = None then warn CleanFailed s1 else s1))"

text \<open>Step 5 (lines 110 to 114), then step 6.\<close>

definition reset_from_hard_reset ::
  "'w exec \<Rightarrow> string \<Rightarrow> string \<Rightarrow> string \<Rightarrow> 'w run_state \<Rightarrow> run_end outcome \<times> 'w run_state" where
  "reset_from_hard_reset exec repo_path main_branch reset_target s =
     then_run (run_command takes_every_line exec [''git'', ''reset'', ''--hard'', reset_target] repo_path s)
       (\<lambda>r s1.
          if r = None then (Returned HardResetFailed, s1)
          else reset_from_clean exec repo_path main_branch s1)"

text \<open>Step 4 (lines 100 to 107), then step 5.\<close>

definition reset_from_fetch ::
  "'w exec \<Rightarrow> string \<Rightarrow> string \<Rightarrow> 'w run_state \<Rightarrow> run_end outcome \<times> 'w run_state" where
  "reset_from_fetch exec repo_path main_branch s =
     then_run (run_command takes_every_line exec [''git'', ''fetch'', ''origin'', main_branch] repo_path s)
       (\<lambda>r s1.
          if r = None then
            reset_from_hard_reset exec repo_path main_branch ''HEAD''
              (warn (FetchFailed main_branch) s1)
          else reset_from_hard_reset exec repo_path main_branch (''origin/'' @ main_branch) s1)"

text \<open>Step 3 (lines 88 to 98), then step 4.\<close>

definition reset_from_checkout ::
  "'w exec \<Rightarrow> string \<Rightarrow> string \<Rightarrow> 'w run_state \<Rightarrow> run_end outcome \<times> 'w run_state" where
  "reset_from_checkout exec repo_path main_branch s =
     then_run (run_command takes_every_line exec [''git'', ''checkout'', main_branch] repo_path s)
       (\<lambda>r s1.
          if r = None then (Returned CheckoutFailed, s1)
          else
            then_run (run_command takes_every_line exec [''git'', ''branch'', ''--show-current''] repo_path s1)
              (\<lambda>current_branch_check s2.
                 if current_branch_check \<noteq> Some main_branch then (Returned CheckoutUnconfirmed, s2)
                 else reset_from_fetch exec repo_path main_branch s2))"

text \<open>
  Step 2 (lines 72 to 85), then step 3. The stash is pushed with \<^verbatim>\<open>subprocess.run\<close>
  itself, without \<^verbatim>\<open>check=True\<close> and outside any \<^verbatim>\<open>try\<close>: a return code is only
  looked at, and an exception of the call is caught by nothing.
\<close>

definition reset_from_stash ::
  "'w exec \<Rightarrow> string \<Rightarrow> string \<Rightarrow> 'w run_state \<Rightarrow> run_end outcome \<times> 'w run_state" where
  "reset_from_stash exec repo_path main_branch s =
     (case subprocess_run exec
             [GIT_EXECUTABLE, ''stash'', ''push'', ''--include-untracked'', ''-m'',
              ''AutoAgentResetStash''] repo_path s of
        (Completed returncode out err, s1) \<Rightarrow>
          if returncode = 0 \<and> \<not> str_contains ''No local changes'' out then
            then_run (run_command takes_every_line exec [''git'', ''stash'', ''drop''] repo_path s1)
              (\<lambda>drop_output s2.
                 reset_from_checkout exec repo_path main_branch
                   (if drop_output = None then warn DropFailed s2 else s2))
          else if returncode \<noteq> 0 then reset_from_checkout exec repo_path main_branch s1
          else reset_from_checkout exec repo_path main_branch s1
      | (FileNotFoundError, s1) \<Rightarrow> (Uncaught, s1)
      | (OtherException, s1) \<Rightarrow> (Uncaught, s1))"

text \<open>
  The functions of \<^verbatim>\<open>os.path\<close> that the script calls, as answered by the machine it
  runs on.
\<close>

record os_path =
  path_isfile :: "string \<Rightarrow> bool"
  path_exists :: "string \<Rightarrow> bool"
  path_isdir :: "string \<Rightarrow> bool"
  path_join :: "string \<Rightarrow> string \<Rightarrow> string"
  path_abspath :: "string \<Rightarrow> string"

text \<open>
  The whole function (lines 56 to 153). \<^verbatim>\<open>if not main_branch:\<close> is true for
  \<^verbatim>\<open>None\<close> and for the empty string.
\<close>

definition reset_repository ::
  "os_path \<Rightarrow> 'w exec \<Rightarrow> string \<Rightarrow> 'w run_state \<Rightarrow> run_end outcome \<times> 'w run_state" where
  "reset_repository os exec repo_path s =
     (let git_dir = path_join os repo_path ''.git'' in
      if \<not> path_isdir os repo_path \<or> \<not> path_isdir os git_dir then (Returned NotARepository, s)
      else
        then_run (get_main_branch_name exec repo_path s)
          (\<lambda>main_branch s1.
             (case main_branch of
                None \<Rightarrow> (Returned NoMainBranch, s1)
              | Some name \<Rightarrow>
                  if name = [] then (Returned NoMainBranch, s1)
                  else reset_from_stash exec repo_path name s1)))"

subsection \<open>The script body\<close>

text \<open>
  Lines 156 to 159 hand the command line to \<^verbatim>\<open>argparse\<close>, with one optional
  positional argument. What the library reads from it is an input of the model: a path,
  no path, a request for help (\<^verbatim>\<open>-h\<close>, \<^verbatim>\<open>--help\<close>), or a command line that the
  parser does not accept (an unknown option, a second argument).
\<close>

datatype command_line =
    RepoPath string
  | NoRepoPath
  | Help
  | UsageError

text \<open>
  Lines 161 to 177, with \<^verbatim>\<open>args.repo_path\<close> given. The value is the exit status of
  the process: \<^verbatim>\<open>sys.exit(1)\<close> gives 1, an uncaught exception gives 1, and reaching
  the end of the script gives 0.
\<close>

definition check_and_reset ::
  "os_path \<Rightarrow> 'w exec \<Rightarrow> string \<Rightarrow> 'w run_state \<Rightarrow> int \<times> 'w run_state" where
  "check_and_reset os exec repo_path s =
     (if \<not> path_isfile os GIT_EXECUTABLE then (1, s)
      else
        (let repo_full_path = path_abspath os repo_path in
           if \<not> path_exists os repo_full_path then (1, s)
           else if \<not> path_isdir os repo_full_path then (1, s)
           else
             (case reset_repository os exec repo_full_path s of
                (Returned e, s') \<Rightarrow> (0, s')
              | (SysExit n, s') \<Rightarrow> (n, s')
              | (Uncaught, s') \<Rightarrow> (1, s'))))"

text \<open>
  Lines 155 to 177. \<^verbatim>\<open>parse_args\<close> ends the process with status 0 after printing
  the help and with status 2 on a command line it does not accept, before any check;
  without a path the default of line 157 is taken.
\<close>

definition script_main ::
  "os_path \<Rightarrow> 'w exec \<Rightarrow> command_line \<Rightarrow> 'w run_state \<Rightarrow> int \<times> 'w run_state" where
  "script_main os exec args s =
     (case args of
        Help \<Rightarrow> (0, s)
      | UsageError \<Rightarrow> (2, s)
      | NoRepoPath \<Rightarrow> check_and_reset os exec ''./test_project'' s
      | RepoPath repo_path \<Rightarrow> check_and_reset os exec repo_path s)"

section \<open>Vocabulary of the properties\<close>

text \<open>A command line as \<open>run_command\<close> hands it to the child process.\<close>

abbreviation git :: "string list \<Rightarrow> string list" where
  "git args \<equiv> GIT_EXECUTABLE # args"

abbreviation show_ref_main :: "string list" where
  "show_ref_main \<equiv> git [''show-ref'', ''--verify'', ''--quiet'', ''refs/heads/main'']"

abbreviation show_ref_master :: "string list" where
  "show_ref_master \<equiv> git [''show-ref'', ''--verify'', ''--quiet'', ''refs/heads/master'']"

abbreviation stash_push :: "string list" where
  "stash_push \<equiv>
     git [''stash'', ''push'', ''--include-untracked'', ''-m'', ''AutoAgentResetStash'']"

text \<open>
  What \<open>run_command\<close> makes of the outcome of the child (lines 25 to 40): the stripped
  output, \<^verbatim>\<open>None\<close>, or the end of the process. Lemma \<open>run_command_git\<close> below
  proves that this is what the function does.
\<close>

definition answer :: "proc_result \<Rightarrow> string option outcome" where
  "answer r =
     (case r of
        Completed rc out err \<Rightarrow> if rc = 0 then Returned (Some (strip out)) else Returned None
      | FileNotFoundError \<Rightarrow> SysExit 1
      | OtherException \<Rightarrow> Returned None)"

text \<open>The child ran to its end with return code 0.\<close>

definition succeeded :: "proc_result \<Rightarrow> bool" where
  "succeeded r = (case r of Completed rc out err \<Rightarrow> rc = 0 | _ \<Rightarrow> False)"

text \<open>The calls made between two states of one run, in order.\<close>

definition issued :: "'w run_state \<Rightarrow> 'w run_state \<Rightarrow> call list" where
  "issued s s' = drop (length (trace s)) (trace s')"

text \<open>The branch name that a forced deletion command carries.\<close>

definition forced_target :: "call \<Rightarrow> string option" where
  "forced_target c =
     (case fst c of
        [g, v, f, b] \<Rightarrow>
          if g = GIT_EXECUTABLE \<and> v = ''branch'' \<and> f = ''-D'' then Some b else None
      | _ \<Rightarrow> None)"

subsection \<open>Concrete environments\<close>

text \<open>An environment that answers from a prepared list, whatever the command.\<close>

definition scripted :: "proc_result list exec" where
  "scripted w cmd cwd = (case w of [] \<Rightarrow> (OtherException, []) | r # rs \<Rightarrow> (r, rs))"

text \<open>An environment in which every command ends with return code 1.\<close>

definition always_failing :: "unit exec" where
  "always_failing w cmd cwd = (Completed 1 [] ''fatal'', w)"

text \<open>A machine on which every path is an existing directory and file.\<close>

definition os_repo :: os_path where
  "os_repo =
     \<lparr>path_isfile = (\<lambda>p. True), path_exists = (\<lambda>p. True), path_isdir = (\<lambda>p. True),
      path_join = (\<lambda>a b. a @ ''/'' @ b), path_abspath = (\<lambda>p. p)\<rparr>"

text \<open>A machine on which \<^verbatim>\<open>work\<close> is a directory without a \<^verbatim>\<open>.git\<close> directory.\<close>

definition os_plain_dir :: os_path where
  "os_plain_dir =
     \<lparr>path_isfile = (\<lambda>p. True), path_exists = (\<lambda>p. True), path_isdir = (\<lambda>p. p = ''work''),
      path_join = (\<lambda>a b. a @ ''/'' @ b), path_abspath = (\<lambda>p. p)\<rparr>"

text \<open>A run on \<^verbatim>\<open>main\<close> with nothing to stash, whose hard reset ends with return code 128.\<close>

definition reset_fails_script :: "proc_result list" where
  "reset_fails_script =
     [Completed 0 [] [], Completed 0 ''No local changes to save'' [], Completed 0 [] [],
      Completed 0 ''main'' [], Completed 0 [] [], Completed 128 [] ''fatal'']"

text \<open>A run whose fetch ends with return code 1 and which lists only \<^verbatim>\<open>main\<close>.\<close>

definition fetch_fails_script :: "proc_result list" where
  "fetch_fails_script =
     [Completed 0 [] [], Completed 0 ''No local changes to save'' [], Completed 0 [] [],
      Completed 0 ''main'' [], Completed 1 [] ''fatal'', Completed 0 [] [], Completed 0 [] [],
      Completed 0 ''* main'' []]"

text \<open>A run whose checkout succeeds while the current branch is reported as \<^verbatim>\<open>feature\<close>.\<close>

definition unconfirmed_script :: "proc_result list" where
  "unconfirmed_script =
     [Completed 0 [] [], Completed 0 ''No local changes to save'' [], Completed 0 [] [],
      Completed 0 ''feature'' []]"


text \<open>A run whose branch listing succeeds with empty output.\<close>

definition empty_listing_script :: "proc_result list" where
  "empty_listing_script =
     [Completed 0 [] [], Completed 0 ''No local changes to save'' [], Completed 0 [] [],
      Completed 0 ''main'' [], Completed 0 [] [], Completed 0 [] [], Completed 0 [] [],
      Completed 0 [] []]"

text \<open>The output of \<^verbatim>\<open>git branch\<close> in a repository with two branches beside \<^verbatim>\<open>main\<close>.\<close>

definition two_branches_listing :: string where
  "two_branches_listing = ''  feature/a'' @ [CHR 0x0A] @ ''* main'' @ [CHR 0x0A] @ ''  feature/b''"

text \<open>A run that deletes \<^verbatim>\<open>feature/a\<close> and fails twice on \<^verbatim>\<open>feature/b\<close>.\<close>

definition pruning_script :: "proc_result list" where
  "pruning_script =
     [Completed 0 [] [], Completed 0 ''No local changes to save'' [], Completed 0 [] [],
      Completed 0 ''main'' [], Completed 0 [] [], Completed 0 [] [], Completed 0 [] [],
      Completed 0 two_branches_listing [],
      Completed 0 ''Deleted branch feature/a'' [], Completed 1 [] ''error'',
      Completed 1 [] ''error'']"

text \<open>A run in which every command succeeds and only \<^verbatim>\<open>main\<close> is listed.\<close>

definition success_script :: "proc_result list" where
  "success_script =
     [Completed 0 [] [], Completed 0 ''No local changes to save'' [], Completed 0 [] [],
      Completed 0 ''main'' [], Completed 0 [] [], Completed 0 [] [], Completed 0 [] [],
      Completed 0 ''* main'' []]"


text \<open>A machine on which the Git executable is not a file.\<close>

definition os_without_git :: os_path where
  "os_without_git =
     \<lparr>path_isfile = (\<lambda>p. False), path_exists = (\<lambda>p. True), path_isdir = (\<lambda>p. True),
      path_join = (\<lambda>a b. a @ ''/'' @ b), path_abspath = (\<lambda>p. p)\<rparr>"



section \<open>The order of the commands in a run\<close>

text \<open>
  Every command line of the script belongs to one step, and the steps are numbered in
  the order of the source: the two reference queries (1, 2), the stash push (3) and drop
  (4), the checkout (5) and its confirmation (6), the fetch (7), the hard reset (8), the
  clean (9), the branch listing (10) and the branch deletions (11).
\<close>

definition phase :: "string list \<Rightarrow> nat" where
  "phase cmd =
     (case tl cmd of
        [] \<Rightarrow> 0
      | v # args \<Rightarrow>
          if v = ''show-ref'' then
            (if args = [''--verify'', ''--quiet'', ''refs/heads/main''] then 1 else 2)
          else if v = ''stash'' then (if take 1 args = [''push''] then 3 else 4)
          else if v = ''checkout'' then 5
          else if v = ''branch'' then
            (if args = [] then 10 else if args = [''--show-current''] then 6 else 11)
          else if v = ''fetch'' then 7
          else if v = ''reset'' then 8
          else if v = ''clean'' then 9
          else 0)"

text \<open>The calls that follow start with the given command line.\<close>

definition begins :: "string list \<Rightarrow> call list \<Rightarrow> bool" where
  "begins cmd rest = (case rest of [] \<Rightarrow> False | e # es \<Rightarrow> fst e = cmd)"

text \<open>
  The deletion commands that the loop over the branch names issues, as a relation
  between the names and the calls: nothing for the main branch; for any other name the
  forced deletion, followed by the lenient one when the forced one was answered with
  \<^verbatim>\<open>None\<close>; the loop ends where the executable is not found.
\<close>

fun policy :: "string \<Rightarrow> string list \<Rightarrow> call list \<Rightarrow> bool" where
  "policy mb [] new = (new = [])"
| "policy mb (b # bs) new =
     (if b = mb then policy mb bs new
      else
        (case new of
           [] \<Rightarrow> False
         | e1 # rest \<Rightarrow>
             fst e1 = git [''branch'', ''-D'', b]
             \<and> (if snd e1 = FileNotFoundError then rest = []
                else if succeeded (snd e1) then policy mb bs rest
                else
                  (case rest of
                     [] \<Rightarrow> False
                   | e2 # rest2 \<Rightarrow>
                       fst e2 = git [''branch'', ''-d'', b]
                       \<and> (if snd e2 = FileNotFoundError then rest2 = []
                          else policy mb bs rest2)))))"

text \<open>The branch names whose lenient deletion was answered with \<^verbatim>\<open>None\<close>.\<close>

definition failures :: "call list \<Rightarrow> string set" where
  "failures new = {b. \<exists>q. (git [''branch'', ''-d'', b], q) \<in> set new \<and> answer q = Returned None}"

text \<open>
  What the script does after one call, as a relation between the call, the calls that
  follow it in the run, and the way the run ends.
\<close>

definition step_rule :: "string \<Rightarrow> run_end outcome \<Rightarrow> call \<Rightarrow> call list \<Rightarrow> bool" where
  "step_rule mb r e rest =
     (case e of (cmd, res) \<Rightarrow>
        (\<forall>e' \<in> set rest. phase cmd < phase (fst e') \<or> phase (fst e') = 11)
      \<and> (phase cmd = 3 \<longrightarrow>
           (case res of
              Completed rc out err \<Rightarrow>
                if rc = 0 \<and> \<not> str_contains ''No local changes'' out
                then begins (git [''stash'', ''drop'']) rest
                else begins (git [''checkout'', mb]) rest
            | _ \<Rightarrow> rest = [] \<and> r = Uncaught))
      \<and> (phase cmd = 4 \<longrightarrow>
           (if res = FileNotFoundError then rest = [] \<and> r = SysExit 1
            else begins (git [''checkout'', mb]) rest))
      \<and> (phase cmd = 5 \<longrightarrow>
           (if succeeded res then begins (git [''branch'', ''--show-current'']) rest
            else rest = []
               \<and> (if res = FileNotFoundError then r = SysExit 1 else r = Returned CheckoutFailed)))
      \<and> (phase cmd = 6 \<longrightarrow>
           (if answer res = Returned (Some mb) then begins (git [''fetch'', ''origin'', mb]) rest
            else rest = []
               \<and> (if res = FileNotFoundError then r = SysExit 1
                   else r = Returned CheckoutUnconfirmed)))
      \<and> (phase cmd = 7 \<longrightarrow>
           (if succeeded res then begins (git [''reset'', ''--hard'', ''origin/'' @ mb]) rest
            else if res = FileNotFoundError then rest = [] \<and> r = SysExit 1
            else begins (git [''reset'', ''--hard'', ''HEAD'']) rest))
      \<and> (phase cmd = 8 \<longrightarrow>
           (if succeeded res then begins (git [''clean'', ''-fdx'']) rest
            else rest = []
               \<and> (if res = FileNotFoundError then r = SysExit 1 else r = Returned HardResetFailed)))
      \<and> (phase cmd = 9 \<longrightarrow>
           (if res = FileNotFoundError then rest = [] \<and> r = SysExit 1
            else begins (git [''branch'']) rest))
      \<and> (phase cmd = 10 \<longrightarrow>
           (if res = FileNotFoundError then rest = [] \<and> r = SysExit 1
            else
              (case answer res of
                 Returned (Some listing) \<Rightarrow>
                   if listing = [] then rest = [] \<and> r = Returned (ResetComplete None)
                   else policy mb (branches_of listing) rest
                      \<and> (if \<exists>c \<in> set rest. snd c = FileNotFoundError then r = SysExit 1
                         else \<exists>k fs. r = Returned (ResetComplete (Some (k, fs)))
                                \<and> set fs = failures rest)
               | _ \<Rightarrow> rest = [] \<and> r = Returned (ResetComplete None))))
      \<and> (phase cmd = 11 \<longrightarrow>
           cmd \<noteq> git [''branch'', ''-D'', mb] \<and> cmd \<noteq> git [''branch'', ''-d'', mb]))"

text \<open>The warning that belongs to a failed call of the steps 4, 7, 9 and 11.\<close>

definition warn_entry :: "string \<Rightarrow> warning list \<Rightarrow> call \<Rightarrow> bool" where
  "warn_entry mb ws e =
     (answer (snd e) = Returned None \<longrightarrow>
        (phase (fst e) = 4 \<longrightarrow> DropFailed \<in> set ws)
      \<and> (phase (fst e) = 7 \<longrightarrow> FetchFailed mb \<in> set ws)
      \<and> (phase (fst e) = 9 \<longrightarrow> CleanFailed \<in> set ws)
      \<and> (phase (fst e) = 11 \<longrightarrow>
           (\<forall>b. fst e = git [''branch'', ''-d'', b] \<longrightarrow> DeleteFailed b \<in> set ws)))"

text \<open>A property of every element of a list together with the elements after it.\<close>

fun each_with_rest :: "('a \<Rightarrow> 'a list \<Rightarrow> bool) \<Rightarrow> 'a list \<Rightarrow> bool" where
  "each_with_rest Q [] = True"
| "each_with_rest Q (x # xs) = (Q x xs \<and> each_with_rest Q xs)"

text \<open>The second state continues the first by the given calls and warnings.\<close>

definition extends ::
  "'w run_state \<Rightarrow> 'w run_state \<Rightarrow> call list \<Rightarrow> warning list \<Rightarrow> bool" where
  "extends s s' new ws = (trace s' = trace s @ new \<and> warnings s' = warnings s @ ws)"

text \<open>
  What the loop over the branch names does: its calls follow the deletion policy, its
  warnings and the names it adds to \<^verbatim>\<open>failed_deletions\<close> are the branches whose
  lenient deletion failed, and it ends the process only where the executable is not found.
\<close>

definition loop_facts ::
  "string \<Rightarrow> string list \<Rightarrow> string list \<Rightarrow> 'w run_state
     \<Rightarrow> (nat \<times> string list) outcome \<times> 'w run_state \<Rightarrow> bool" where
  "loop_facts mb bs failed s R =
     (\<exists>new fs. extends s (snd R) new (map DeleteFailed fs) \<and> policy mb bs new
        \<and> (if \<exists>c \<in> set new. snd c = FileNotFoundError then fst R = SysExit 1
            else \<exists>n. fst R = Returned (n, failed @ fs))
        \<and> set fs = failures new)"

text \<open>
  What the function does from step \<open>k\<close> on: it starts with the first command of that
  step, issues only commands of that step and later ones, follows the rule after every
  call, prints the warning of every failed call, and ends the process only with status 1.
\<close>

definition shape ::
  "nat \<Rightarrow> string list \<Rightarrow> string \<Rightarrow> 'w run_state \<Rightarrow> run_end outcome \<times> 'w run_state \<Rightarrow> bool" where
  "shape k first mb s R =
     (\<exists>new ws. extends s (snd R) new ws \<and> begins first new
        \<and> (\<forall>e \<in> set new. k \<le> phase (fst e))
        \<and> each_with_rest (step_rule mb (fst R)) new
        \<and> (\<forall>e \<in> set new. warn_entry mb ws e)
        \<and> (\<forall>n. fst R = SysExit n \<longrightarrow> n = 1))"

section \<open>Lemmas\<close>

subsection \<open>Lists, answers and states\<close>

lemma each_with_rest_iff:
  "each_with_rest Q xs \<longleftrightarrow> (\<forall>pre x post. xs = pre @ x # post \<longrightarrow> Q x post)"
proof (induction xs)
  case Nil
  then show ?case by simp
next
  case (Cons a xs)
  show ?case
    unfolding each_with_rest.simps Cons.IH
    by (auto simp: Cons_eq_append_conv)
qed

lemma takes_every_line_all [simp]: "list_all (takes_every_line w) xs"
  by (simp add: list_all_iff takes_every_line_def)

lemma run_command_git:
  "run_command takes_every_line exec (''git'' # args) cwd s =
     (answer (fst (exec (world s) (git args) cwd)),
      s\<lparr>world := snd (exec (world s) (git args) cwd),
        trace := trace s @ [(git args, fst (exec (world s) (git args) cwd))]\<rparr>)"
  by (cases "exec (world s) (git args) cwd")
     (simp add: run_command_def subprocess_run_def answer_def takes_every_line_def Let_def
        split: proc_result.splits)

lemma answer_not_found [simp]:
  "answer FileNotFoundError = SysExit 1" "\<not> succeeded FileNotFoundError"
  by (simp_all add: answer_def succeeded_def)

lemma answer_cases:
  "answer r = Returned None \<and> \<not> succeeded r \<and> r \<noteq> FileNotFoundError
   \<or> (\<exists>out. answer r = Returned (Some out)) \<and> succeeded r \<and> r \<noteq> FileNotFoundError
   \<or> answer r = SysExit 1 \<and> r = FileNotFoundError \<and> \<not> succeeded r"
  by (auto simp: answer_def succeeded_def split: proc_result.splits)

lemma trace_warn [simp]: "trace (warn m s) = trace s"
  and world_warn [simp]: "world (warn m s) = world s"
  and warnings_warn [simp]: "warnings (warn m s) = warnings s @ [m]"
  by (simp_all add: warn_def)

lemma phase_simps [simp]:
  "phase (git [''show-ref'', ''--verify'', ''--quiet'', ''refs/heads/main'']) = 1"
  "phase (git [''show-ref'', ''--verify'', ''--quiet'', ''refs/heads/master'']) = 2"
  "phase (git [''stash'', ''push'', ''--include-untracked'', ''-m'', ''AutoAgentResetStash'']) = 3"
  "phase (git [''stash'', ''drop'']) = 4"
  "phase (git [''checkout'', b]) = 5"
  "phase (git [''branch'', ''--show-current'']) = 6"
  "phase (git [''fetch'', ''origin'', b]) = 7"
  "phase (git [''reset'', ''--hard'', t]) = 8"
  "phase (git [''clean'', ''-fdx'']) = 9"
  "phase (git [''branch'']) = 10"
  "phase (git [''branch'', ''-D'', b]) = 11"
  "phase (git [''branch'', ''-d'', b]) = 11"
  by (simp_all add: phase_def)

lemma extends_refl: "extends s s [] []"
  by (simp add: extends_def)

lemma extends_call:
  "extends (s\<lparr>world := w, trace := trace s @ [e]\<rparr>) s' new ws \<Longrightarrow> extends s s' (e # new) ws"
  by (simp add: extends_def)

lemma extends_call_warn:
  "extends (warn m (s\<lparr>world := w, trace := trace s @ [e]\<rparr>)) s' new ws
     \<Longrightarrow> extends s s' (e # new) (m # ws)"
  by (simp add: extends_def)

lemma answer_split:
  obtains (exit) "answer r = SysExit 1" "r = FileNotFoundError" "\<not> succeeded r"
  | (ok) out where "answer r = Returned (Some out)" "succeeded r" "r \<noteq> FileNotFoundError"
  | (fail) "answer r = Returned None" "\<not> succeeded r" "r \<noteq> FileNotFoundError"
  using answer_cases[of r] by blast

subsection \<open>The loop over the branch names\<close>

lemma failures_simps [simp]:
  "failures [] = {}"
  "failures ((git [''branch'', ''-D'', b], q) # new) = failures new"
  "failures ((git [''branch'', ''-d'', b], q) # new)
     = (if answer q = Returned None then insert b (failures new) else failures new)"
  by (auto simp: failures_def)

lemma loop_facts_nil: "loop_facts mb [] failed s (Returned (n, failed), s)"
  unfolding loop_facts_def
  by (intro exI[of _ "[]"]) (simp add: extends_def)

lemma loop_facts_skip: "loop_facts mb bs failed s R \<Longrightarrow> loop_facts mb (mb # bs) failed s R"
  unfolding loop_facts_def by simp

lemma loop_facts_exit:
  assumes "b \<noteq> mb"
  shows "loop_facts mb (b # bs) failed s
     (SysExit 1, s\<lparr>world := w, trace := trace s @ [(git [''branch'', ''-D'', b], FileNotFoundError)]\<rparr>)"
  unfolding loop_facts_def using assms
  by (intro exI[of _ "[(git [''branch'', ''-D'', b], FileNotFoundError)]"] exI[of _ "[]"])
     (simp add: extends_def)

lemma loop_facts_forced:
  assumes "b \<noteq> mb" "succeeded q"
    and "loop_facts mb bs failed
           (s\<lparr>world := w, trace := trace s @ [(git [''branch'', ''-D'', b], q)]\<rparr>) R"
  shows "loop_facts mb (b # bs) failed s R"
proof -
  from assms(3) obtain new fs where n:
    "extends (s\<lparr>world := w, trace := trace s @ [(git [''branch'', ''-D'', b], q)]\<rparr>) (snd R)
       new (map DeleteFailed fs)"
    "policy mb bs new"
    "if \<exists>c \<in> set new. snd c = FileNotFoundError then fst R = SysExit 1
     else \<exists>n. fst R = Returned (n, failed @ fs)"
    "set fs = failures new"
    unfolding loop_facts_def by blast
  have nf: "q \<noteq> FileNotFoundError" using assms(2) by auto
  show ?thesis unfolding loop_facts_def
    using n assms(1,2) nf extends_call[OF n(1)]
    by (intro exI[of _ "(git [''branch'', ''-D'', b], q) # new"] exI[of _ fs]) simp
qed

lemma loop_facts_lenient_exit:
  assumes "b \<noteq> mb" "\<not> succeeded q" "q \<noteq> FileNotFoundError"
  shows "loop_facts mb (b # bs) failed s
     (SysExit 1, s\<lparr>world := w, trace := trace s @ [(git [''branch'', ''-D'', b], q)]\<rparr>
                  \<lparr>world := w', trace := trace (s\<lparr>world := w, trace := trace s @ [(git [''branch'', ''-D'', b], q)]\<rparr>)
                       @ [(git [''branch'', ''-d'', b], FileNotFoundError)]\<rparr>)"
  unfolding loop_facts_def using assms
  by (intro exI[of _ "[(git [''branch'', ''-D'', b], q),
                        (git [''branch'', ''-d'', b], FileNotFoundError)]"] exI[of _ "[]"])
     (simp add: extends_def)

lemma loop_facts_lenient:
  assumes "b \<noteq> mb" "\<not> succeeded q" "q \<noteq> FileNotFoundError" "succeeded q2"
    and "loop_facts mb bs failed
           (s\<lparr>world := w, trace := trace s @ [(git [''branch'', ''-D'', b], q)]\<rparr>
             \<lparr>world := w', trace := trace (s\<lparr>world := w, trace := trace s @ [(git [''branch'', ''-D'', b], q)]\<rparr>)
                       @ [(git [''branch'', ''-d'', b], q2)]\<rparr>) R"
  shows "loop_facts mb (b # bs) failed s R"
proof -
  from assms(5) obtain new fs where n:
    "extends (s\<lparr>world := w, trace := trace s @ [(git [''branch'', ''-D'', b], q)]\<rparr>
             \<lparr>world := w', trace := trace (s\<lparr>world := w, trace := trace s @ [(git [''branch'', ''-D'', b], q)]\<rparr>)
                       @ [(git [''branch'', ''-d'', b], q2)]\<rparr>) (snd R)
       new (map DeleteFailed fs)"
    "policy mb bs new"
    "if \<exists>c \<in> set new. snd c = FileNotFoundError then fst R = SysExit 1
     else \<exists>n. fst R = Returned (n, failed @ fs)"
    "set fs = failures new"
    unfolding loop_facts_def by blast
  have nf: "q2 \<noteq> FileNotFoundError" "answer q2 \<noteq> Returned None"
    using assms(4) answer_cases[of q2] by auto
  show ?thesis unfolding loop_facts_def
    using n assms(1-4) nf extends_call[OF extends_call[OF n(1)]]
    by (intro exI[of _ "(git [''branch'', ''-D'', b], q) # (git [''branch'', ''-d'', b], q2) # new"]
          exI[of _ fs]) simp
qed

lemma loop_facts_failed:
  assumes "b \<noteq> mb" "\<not> succeeded q" "q \<noteq> FileNotFoundError"
    "\<not> succeeded q2" "q2 \<noteq> FileNotFoundError"
    and "loop_facts mb bs (failed @ [b])
           (warn (DeleteFailed b)
             (s\<lparr>world := w, trace := trace s @ [(git [''branch'', ''-D'', b], q)]\<rparr>
               \<lparr>world := w', trace := trace (s\<lparr>world := w, trace := trace s @ [(git [''branch'', ''-D'', b], q)]\<rparr>)
                       @ [(git [''branch'', ''-d'', b], q2)]\<rparr>)) R"
  shows "loop_facts mb (b # bs) failed s R"
proof -
  from assms(6) obtain new fs where n:
    "extends (warn (DeleteFailed b)
             (s\<lparr>world := w, trace := trace s @ [(git [''branch'', ''-D'', b], q)]\<rparr>
               \<lparr>world := w', trace := trace (s\<lparr>world := w, trace := trace s @ [(git [''branch'', ''-D'', b], q)]\<rparr>)
                       @ [(git [''branch'', ''-d'', b], q2)]\<rparr>)) (snd R)
       new (map DeleteFailed fs)"
    "policy mb bs new"
    "if \<exists>c \<in> set new. snd c = FileNotFoundError then fst R = SysExit 1
     else \<exists>n. fst R = Returned (n, (failed @ [b]) @ fs)"
    "set fs = failures new"
    unfolding loop_facts_def by blast
  have a: "answer q2 = Returned None"
    using assms(4,5) answer_cases[of q2] by auto
  have e: "extends s (snd R)
      ((git [''branch'', ''-D'', b], q) # (git [''branch'', ''-d'', b], q2) # new)
      (map DeleteFailed (b # fs))"
    using extends_call[OF extends_call_warn[OF n(1)]] by simp
  show ?thesis unfolding loop_facts_def
    using n(2-4) assms(1-5) a e
    by (intro exI[of _ "(git [''branch'', ''-D'', b], q) # (git [''branch'', ''-d'', b], q2) # new"]
          exI[of _ "b # fs"]) (auto split: if_splits)
qed

lemma delete_loop_facts:
  "loop_facts mb bs failed s (delete_loop exec repo mb bs (n, failed) s)"
proof (induction bs arbitrary: n failed s)
  case Nil
  then show ?case by (simp add: loop_facts_nil)
next
  case (Cons b bs)
  show ?case
  proof (cases "b = mb")
    case True
    then show ?thesis using Cons.IH[of failed s n] by (simp add: loop_facts_skip)
  next
    case False
    let ?c1 = "git [''branch'', ''-D'', b]" and ?c2 = "git [''branch'', ''-d'', b]"
    let ?r1 = "fst (exec (world s) ?c1 repo)"
    let ?w1 = "snd (exec (world s) ?c1 repo)"
    let ?s1 = "s\<lparr>world := ?w1, trace := trace s @ [(?c1, ?r1)]\<rparr>"
    let ?r2 = "fst (exec ?w1 ?c2 repo)"
    let ?s2 = "?s1\<lparr>world := snd (exec ?w1 ?c2 repo), trace := trace ?s1 @ [(?c2, ?r2)]\<rparr>"
    have rc1: "run_command takes_every_line exec [''git'', ''branch'', ''-D'', b] repo s = (answer ?r1, ?s1)"
      by (simp add: run_command_git)
    have rc2: "run_command takes_every_line exec [''git'', ''branch'', ''-d'', b] repo ?s1 = (answer ?r2, ?s2)"
      by (simp add: run_command_git)
    show ?thesis
    proof (cases ?r1 rule: answer_split)
      case exit
      have eq: "delete_loop exec repo mb (b # bs) (n, failed) s = (SysExit 1, ?s1)"
        unfolding delete_loop.simps rc1 using False exit(1) by simp
      show ?thesis unfolding eq
        using loop_facts_exit[OF False, of bs failed s ?w1] exit(2) by simp
    next
      case (ok out)
      have eq: "delete_loop exec repo mb (b # bs) (n, failed) s
                  = delete_loop exec repo mb bs (n + 1, failed) ?s1"
        unfolding delete_loop.simps rc1 using False ok(1) by simp
      show ?thesis unfolding eq
        by (rule loop_facts_forced[OF False ok(2) Cons.IH])
    next
      case fail
      show ?thesis
      proof (cases ?r2 rule: answer_split)
        case exit
        have eq: "delete_loop exec repo mb (b # bs) (n, failed) s = (SysExit 1, ?s2)"
          unfolding delete_loop.simps rc1 using False fail(1) exit(1) by (simp add: rc2)
        show ?thesis unfolding eq
          using loop_facts_lenient_exit[OF False fail(2,3), of bs failed s ?w1
              "snd (exec ?w1 ?c2 repo)"] exit(2)
          by simp
      next
        case (ok out)
        have eq: "delete_loop exec repo mb (b # bs) (n, failed) s
                    = delete_loop exec repo mb bs (n + 1, failed) ?s2"
          unfolding delete_loop.simps rc1 using False fail(1) ok(1) by (simp add: rc2)
        show ?thesis unfolding eq
          by (rule loop_facts_lenient[OF False fail(2,3) ok(2) Cons.IH])
      next
        case fail2: fail
        have eq: "delete_loop exec repo mb (b # bs) (n, failed) s
                    = delete_loop exec repo mb bs (n, failed @ [b]) (warn (DeleteFailed b) ?s2)"
          unfolding delete_loop.simps rc1 using False fail(1) fail2(1) by (simp add: rc2)
        show ?thesis unfolding eq
          by (rule loop_facts_failed[OF False fail(2,3) fail2(2,3) Cons.IH])
      qed
    qed
  qed
qed

lemma forced_target_simps [simp]:
  "forced_target (git [''branch'', ''-D'', b], q) = Some b"
  "forced_target (git [''branch'', ''-d'', b], q) = None"
  by (simp_all add: forced_target_def)

lemma policy_commands:
  "policy mb bs new \<Longrightarrow> c \<in> set new
     \<Longrightarrow> \<exists>b \<in> set bs. b \<noteq> mb
           \<and> (fst c = git [''branch'', ''-D'', b] \<or> fst c = git [''branch'', ''-d'', b])"
proof (induction bs arbitrary: new)
  case Nil
  then show ?case by simp
next
  case (Cons a bs)
  then show ?case
    by (fastforce split: if_splits list.splits)
qed

lemma policy_lenient_after_forced:
  "policy mb bs new \<Longrightarrow> new = pre @ (git [''branch'', ''-d'', b], q) # post
     \<Longrightarrow> \<exists>pre' q'. pre = pre' @ [(git [''branch'', ''-D'', b], q')]
           \<and> \<not> succeeded q' \<and> q' \<noteq> FileNotFoundError"
proof (induction bs arbitrary: new pre)
  case Nil
  then show ?case by simp
next
  case (Cons a bs)
  show ?case
  proof (cases "a = mb")
    case True
    then show ?thesis using Cons by simp
  next
    case False
    from Cons.prems(1) False obtain e1 rest where new: "new = e1 # rest"
      and e1: "fst e1 = git [''branch'', ''-D'', a]"
      by (cases new) auto
    from Cons.prems(2) new e1 obtain pre1 where pre: "pre = e1 # pre1"
      and rest: "rest = pre1 @ (git [''branch'', ''-d'', b], q) # post"
      by (cases pre) auto
    have nf: "snd e1 \<noteq> FileNotFoundError" using Cons.prems(1) False new rest by auto
    show ?thesis
    proof (cases "succeeded (snd e1)")
      case True
      then have "policy mb bs rest" using Cons.prems(1) False new nf by simp
      from Cons.IH[OF this rest] show ?thesis using pre by auto
    next
      case ns: False
      from Cons.prems(1) False new nf ns obtain e2 rest2 where r2: "rest = e2 # rest2"
        and e2: "fst e2 = git [''branch'', ''-d'', a]"
        and p2: "if snd e2 = FileNotFoundError then rest2 = [] else policy mb bs rest2"
        by (cases rest) auto
      show ?thesis
      proof (cases pre1)
        case Nil
        then have "b = a" using rest r2 e2 by auto
        then show ?thesis using pre Nil e1 ns nf
          by (intro exI[of _ "[]"] exI[of _ "snd e1"]) (cases e1, simp)
      next
        case (Cons x pre2)
        then have rest2: "rest2 = pre2 @ (git [''branch'', ''-d'', b], q) # post"
          using rest r2 by simp
        then have "policy mb bs rest2" using p2 by (auto split: if_splits)
        from Cons.IH[OF this rest2] show ?thesis using pre Cons by auto
      qed
    qed
  qed
qed

lemma policy_forced_then_lenient:
  "policy mb bs new \<Longrightarrow> new = pre @ (git [''branch'', ''-D'', b], q) # post
     \<Longrightarrow> \<not> succeeded q \<Longrightarrow> q \<noteq> FileNotFoundError
     \<Longrightarrow> post \<noteq> [] \<and> fst (hd post) = git [''branch'', ''-d'', b]"
proof (induction bs arbitrary: new pre)
  case Nil
  then show ?case by simp
next
  case (Cons a bs)
  show ?case
  proof (cases "a = mb")
    case True
    then show ?thesis using Cons by simp
  next
    case False
    from Cons.prems(1) False obtain e1 rest where new: "new = e1 # rest"
      and e1: "fst e1 = git [''branch'', ''-D'', a]"
      by (cases new) auto
    show ?thesis
    proof (cases pre)
      case Nil
      then have x: "e1 = (git [''branch'', ''-D'', b], q)" "rest = post"
        using Cons.prems(2) new by auto
      then show ?thesis using Cons.prems(1,3,4) False new
        by (auto split: list.splits)
    next
      case (Cons x pre1)
      then have px: "x = e1" and rest: "rest = pre1 @ (git [''branch'', ''-D'', b], q) # post"
        using Cons.prems(2) new by auto
      have nf: "snd e1 \<noteq> FileNotFoundError" using Cons.prems(1) False new rest by auto
      show ?thesis
      proof (cases "succeeded (snd e1)")
        case True
        then have "policy mb bs rest" using Cons.prems(1) False new nf by simp
        from Cons.IH[OF this rest Cons.prems(3,4)] show ?thesis .
      next
        case ns: False
        from Cons.prems(1) False new nf ns obtain e2 rest2 where r2: "rest = e2 # rest2"
          and e2: "fst e2 = git [''branch'', ''-d'', a]"
          and p2: "if snd e2 = FileNotFoundError then rest2 = [] else policy mb bs rest2"
          by (cases rest) auto
        from rest r2 e2 obtain pre2 where
          rest2: "rest2 = pre2 @ (git [''branch'', ''-D'', b], q) # post"
          by (cases pre1) auto
        then have "policy mb bs rest2" using p2 by (auto split: if_splits)
        from Cons.IH[OF this rest2 Cons.prems(3,4)] show ?thesis .
      qed
    qed
  qed
qed

lemma policy_forced_targets:
  "policy mb bs new \<Longrightarrow> \<forall>c \<in> set new. snd c \<noteq> FileNotFoundError
     \<Longrightarrow> List.map_filter forced_target new = filter (\<lambda>b. b \<noteq> mb) bs"
proof (induction bs arbitrary: new)
  case Nil
  then show ?case by simp
next
  case (Cons a bs)
  show ?case
  proof (cases "a = mb")
    case True
    then show ?thesis using Cons by simp
  next
    case False
    from Cons.prems(1) False obtain q1 rest where
      new: "new = (git [''branch'', ''-D'', a], q1) # rest"
      by (cases new) (auto simp: prod_eq_iff)
    have nf: "q1 \<noteq> FileNotFoundError" using Cons.prems(2) new by auto
    show ?thesis
    proof (cases "succeeded q1")
      case True
      then have "policy mb bs rest" using Cons.prems(1) False new nf by simp
      from Cons.IH[OF this] Cons.prems(2) show ?thesis
        using False new by simp
    next
      case ns: False
      from Cons.prems(1) False new nf ns obtain q2 rest2 where
        r2: "rest = (git [''branch'', ''-d'', a], q2) # rest2"
        and p2: "if q2 = FileNotFoundError then rest2 = [] else policy mb bs rest2"
        by (cases rest) (auto simp: prod_eq_iff)
      have "q2 \<noteq> FileNotFoundError" using Cons.prems(2) new r2 by auto
      then have "policy mb bs rest2" using p2 by simp
      from Cons.IH[OF this] Cons.prems(2) show ?thesis
        using False new r2 by simp
    qed
  qed
qed

subsection \<open>The steps of the function, from the last to the first\<close>

lemma step_rule_deletion:
  assumes "phase cmd = 11" "cmd \<noteq> git [''branch'', ''-D'', mb]"
    "cmd \<noteq> git [''branch'', ''-d'', mb]" "\<forall>e' \<in> set rest. phase (fst e') = 11"
  shows "step_rule mb r (cmd, res) rest"
  using assms by (simp add: step_rule_def)

lemma deletions_each:
  assumes "\<forall>e \<in> set new. phase (fst e) = 11 \<and> fst e \<noteq> git [''branch'', ''-D'', mb]
             \<and> fst e \<noteq> git [''branch'', ''-d'', mb]"
  shows "each_with_rest (step_rule mb r) new"
  using assms
proof (induction new)
  case Nil
  then show ?case by simp
next
  case (Cons e new)
  obtain cmd res where e: "e = (cmd, res)" by (cases e)
  have "step_rule mb r (cmd, res) new"
    using Cons.prems e by (intro step_rule_deletion) auto
  then show ?case using Cons e by simp
qed

lemma policy_phase:
  assumes "policy mb bs new" "e \<in> set new"
  shows "phase (fst e) = 11 \<and> fst e \<noteq> git [''branch'', ''-D'', mb]
           \<and> fst e \<noteq> git [''branch'', ''-d'', mb]"
  using policy_commands[OF assms] by auto

lemma policy_each: "policy mb bs new \<Longrightarrow> each_with_rest (step_rule mb r) new"
  by (rule deletions_each) (blast dest: policy_phase)

lemma warn_entry_mono: "warn_entry mb ws e \<Longrightarrow> set ws \<subseteq> set ws' \<Longrightarrow> warn_entry mb ws' e"
  unfolding warn_entry_def by blast

lemma shape_stop:
  assumes "step_rule mb r (cmd, res) []" "k \<le> phase cmd" "answer res \<noteq> Returned None"
    and "\<forall>n. r = SysExit n \<longrightarrow> n = 1"
  shows "shape k cmd mb s (r, s\<lparr>world := w, trace := trace s @ [(cmd, res)]\<rparr>)"
  unfolding shape_def using assms
  by (intro exI[of _ "[(cmd, res)]"] exI[of _ "[]"])
     (simp add: extends_def begins_def warn_entry_def)

lemma shape_stop_failed:
  assumes "step_rule mb r (cmd, res) []" "k \<le> phase cmd" "phase cmd \<notin> {4, 7, 9, 11}"
    and "\<forall>n. r = SysExit n \<longrightarrow> n = 1"
  shows "shape k cmd mb s (r, s\<lparr>world := w, trace := trace s @ [(cmd, res)]\<rparr>)"
  unfolding shape_def using assms
  by (intro exI[of _ "[(cmd, res)]"] exI[of _ "[]"])
     (simp add: extends_def begins_def warn_entry_def)

lemma shape_call:
  assumes nxt: "shape k' first mb (s\<lparr>world := w, trace := trace s @ [(cmd, res)]\<rparr>) R"
    and ph: "k \<le> phase cmd" "phase cmd < k'"
    and rule: "\<And>rest. begins first rest \<Longrightarrow> \<forall>e' \<in> set rest. phase cmd < phase (fst e')
                 \<Longrightarrow> step_rule mb (fst R) (cmd, res) rest"
    and w: "answer res = Returned None \<Longrightarrow> phase cmd \<notin> {4, 7, 9, 11}"
  shows "shape k cmd mb s R"
proof -
  from nxt obtain new ws where n:
    "extends (s\<lparr>world := w, trace := trace s @ [(cmd, res)]\<rparr>) (snd R) new ws"
    "begins first new" "\<forall>e \<in> set new. k' \<le> phase (fst e)"
    "each_with_rest (step_rule mb (fst R)) new" "\<forall>e \<in> set new. warn_entry mb ws e"
    "\<forall>n. fst R = SysExit n \<longrightarrow> n = 1"
    unfolding shape_def by blast
  have lt: "\<forall>e' \<in> set new. phase cmd < phase (fst e')" using n(3) ph(2) by fastforce
  have "extends s (snd R) ((cmd, res) # new) ws" using n(1) by (rule extends_call)
  moreover have "begins cmd ((cmd, res) # new)" by (simp add: begins_def)
  moreover have "\<forall>e \<in> set ((cmd, res) # new). k \<le> phase (fst e)"
    using n(3) ph by fastforce
  moreover have "each_with_rest (step_rule mb (fst R)) ((cmd, res) # new)"
    using rule[OF n(2) lt] n(4) by simp
  moreover have "\<forall>e \<in> set ((cmd, res) # new). warn_entry mb ws e"
    using n(5) w by (auto simp: warn_entry_def)
  ultimately show ?thesis unfolding shape_def using n(6) by blast
qed

lemma shape_call_warn:
  assumes nxt: "shape k' first mb (warn m (s\<lparr>world := w, trace := trace s @ [(cmd, res)]\<rparr>)) R"
    and ph: "k \<le> phase cmd" "phase cmd < k'"
    and rule: "\<And>rest. begins first rest \<Longrightarrow> \<forall>e' \<in> set rest. phase cmd < phase (fst e')
                 \<Longrightarrow> step_rule mb (fst R) (cmd, res) rest"
    and w: "warn_entry mb [m] (cmd, res)"
  shows "shape k cmd mb s R"
proof -
  from nxt obtain new ws where n:
    "extends (warn m (s\<lparr>world := w, trace := trace s @ [(cmd, res)]\<rparr>)) (snd R) new ws"
    "begins first new" "\<forall>e \<in> set new. k' \<le> phase (fst e)"
    "each_with_rest (step_rule mb (fst R)) new" "\<forall>e \<in> set new. warn_entry mb ws e"
    "\<forall>n. fst R = SysExit n \<longrightarrow> n = 1"
    unfolding shape_def by blast
  have lt: "\<forall>e' \<in> set new. phase cmd < phase (fst e')" using n(3) ph(2) by fastforce
  have "extends s (snd R) ((cmd, res) # new) (m # ws)" using n(1) by (rule extends_call_warn)
  moreover have "begins cmd ((cmd, res) # new)" by (simp add: begins_def)
  moreover have "\<forall>e \<in> set ((cmd, res) # new). k \<le> phase (fst e)"
    using n(3) ph by fastforce
  moreover have "each_with_rest (step_rule mb (fst R)) ((cmd, res) # new)"
    using rule[OF n(2) lt] n(4) by simp
  moreover have "\<forall>e \<in> set ((cmd, res) # new). warn_entry mb (m # ws) e"
    using n(5) warn_entry_mono[OF w, of "m # ws"] warn_entry_mono[of mb ws _ "m # ws"]
    by auto
  ultimately show ?thesis unfolding shape_def using n(6) by blast
qed

lemma prune_shape:
  "shape 10 (git [''branch'']) mb s (delete_other_branches exec repo mb s)"
proof -
  let ?c = "git [''branch'']"
  let ?r = "fst (exec (world s) ?c repo)"
  let ?s1 = "s\<lparr>world := snd (exec (world s) ?c repo), trace := trace s @ [(?c, ?r)]\<rparr>"
  have rc: "run_command takes_every_line exec [''git'', ''branch''] repo s = (answer ?r, ?s1)"
    by (simp add: run_command_git)
  show ?thesis
  proof (cases "\<exists>listing. answer ?r = Returned (Some listing) \<and> listing \<noteq> []")
    case True
    then obtain listing where l: "answer ?r = Returned (Some listing)" "listing \<noteq> []" by blast
    let ?L = "delete_loop exec repo mb (branches_of listing) (0, []) ?s1"
    let ?R = "delete_other_branches exec repo mb s"
    from delete_loop_facts[of mb "branches_of listing" "[]" ?s1 exec repo 0]
    obtain new fs where n: "extends ?s1 (snd ?L) new (map DeleteFailed fs)"
      "policy mb (branches_of listing) new"
      "if \<exists>c \<in> set new. snd c = FileNotFoundError then fst ?L = SysExit 1
       else \<exists>k. fst ?L = Returned (k, [] @ fs)"
      "set fs = failures new"
      unfolding loop_facts_def by blast
    have R: "?R = (case fst ?L of Returned c \<Rightarrow> Returned (ResetComplete (Some c))
           | SysExit n \<Rightarrow> SysExit n | Uncaught \<Rightarrow> Uncaught, snd ?L)"
      by (simp add: delete_other_branches_def rc then_run_def l split: prod.splits outcome.splits)
    have nf: "?r \<noteq> FileNotFoundError" using l by (auto simp: answer_def)
    have ph: "phase (fst e) = 11" if "e \<in> set new" for e
      using policy_phase[OF n(2) that] by simp
    have fin: "if \<exists>c \<in> set new. snd c = FileNotFoundError then fst ?R = SysExit 1
       else \<exists>k fs'. fst ?R = Returned (ResetComplete (Some (k, fs'))) \<and> set fs' = failures new"
      using n(3,4) unfolding R by (auto split: if_splits)
    have "extends s (snd ?R) ((?c, ?r) # new) (map DeleteFailed fs)"
      unfolding R using n(1) by (simp add: extends_call)
    moreover have "each_with_rest (step_rule mb (fst ?R)) new"
      using policy_each[OF n(2)] .
    moreover have "step_rule mb (fst ?R) (?c, ?r) new"
      using ph l nf n(2) fin by (simp add: step_rule_def)
    moreover have "\<forall>e \<in> set ((?c, ?r) # new). warn_entry mb (map DeleteFailed fs) e"
      using ph n(4) by (fastforce simp: warn_entry_def failures_def)
    moreover have "\<forall>e \<in> set ((?c, ?r) # new). 10 \<le> phase (fst e)"
      using ph by simp
    moreover have "\<forall>n. fst ?R = SysExit n \<longrightarrow> n = 1"
      using fin by (auto split: if_splits)
    ultimately show ?thesis
      unfolding shape_def
      by (intro exI[of _ "(?c, ?r) # new"] exI[of _ "map DeleteFailed fs"]) (simp add: begins_def)
  next
    case False
    then have R: "delete_other_branches exec repo mb s =
        (if ?r = FileNotFoundError then SysExit 1 else Returned (ResetComplete None), ?s1)"
      using answer_cases[of ?r]
      by (auto simp: delete_other_branches_def rc then_run_def split: option.splits)
    have "step_rule mb (if ?r = FileNotFoundError then SysExit 1 else Returned (ResetComplete None))
            (?c, ?r) []"
      using False answer_cases[of ?r] by (auto simp: step_rule_def)
    then show ?thesis
      unfolding R by (rule shape_stop_failed) simp_all
  qed
qed

lemma clean_shape:
  "shape 9 (git [''clean'', ''-fdx'']) mb s (reset_from_clean exec repo mb s)"
proof -
  let ?c = "git [''clean'', ''-fdx'']"
  let ?r = "fst (exec (world s) ?c repo)"
  let ?s1 = "s\<lparr>world := snd (exec (world s) ?c repo), trace := trace s @ [(?c, ?r)]\<rparr>"
  have rc: "run_command takes_every_line exec [''git'', ''clean'', ''-fdx''] repo s = (answer ?r, ?s1)"
    by (simp add: run_command_git)
  show ?thesis
  proof (cases ?r rule: answer_split)
    case exit
    have eq: "reset_from_clean exec repo mb s = (SysExit 1, ?s1)"
      by (simp add: reset_from_clean_def rc then_run_def exit(1))
    show ?thesis unfolding eq by (rule shape_stop) (simp_all add: step_rule_def exit)
  next
    case (ok out)
    have eq: "reset_from_clean exec repo mb s = delete_other_branches exec repo mb ?s1"
      by (simp add: reset_from_clean_def rc then_run_def ok(1))
    show ?thesis unfolding eq
      by (rule shape_call[OF prune_shape]) (simp_all add: step_rule_def ok)
  next
    case fail
    have eq: "reset_from_clean exec repo mb s
                = delete_other_branches exec repo mb (warn CleanFailed ?s1)"
      by (simp add: reset_from_clean_def rc then_run_def fail(1))
    show ?thesis unfolding eq
      by (rule shape_call_warn[OF prune_shape]) (simp_all add: step_rule_def warn_entry_def fail)
  qed
qed

lemma hard_reset_shape:
  "shape 8 (git [''reset'', ''--hard'', t]) mb s (reset_from_hard_reset exec repo mb t s)"
proof -
  let ?c = "git [''reset'', ''--hard'', t]"
  let ?r = "fst (exec (world s) ?c repo)"
  let ?s1 = "s\<lparr>world := snd (exec (world s) ?c repo), trace := trace s @ [(?c, ?r)]\<rparr>"
  have rc: "run_command takes_every_line exec [''git'', ''reset'', ''--hard'', t] repo s = (answer ?r, ?s1)"
    by (simp add: run_command_git)
  show ?thesis
  proof (cases ?r rule: answer_split)
    case exit
    have eq: "reset_from_hard_reset exec repo mb t s = (SysExit 1, ?s1)"
      by (simp add: reset_from_hard_reset_def rc then_run_def exit(1))
    show ?thesis unfolding eq by (rule shape_stop) (simp_all add: step_rule_def exit)
  next
    case (ok out)
    have eq: "reset_from_hard_reset exec repo mb t s = reset_from_clean exec repo mb ?s1"
      by (simp add: reset_from_hard_reset_def rc then_run_def ok(1))
    show ?thesis unfolding eq
      by (rule shape_call[OF clean_shape]) (simp_all add: step_rule_def ok)
  next
    case fail
    have eq: "reset_from_hard_reset exec repo mb t s = (Returned HardResetFailed, ?s1)"
      by (simp add: reset_from_hard_reset_def rc then_run_def fail(1))
    show ?thesis unfolding eq by (rule shape_stop_failed) (simp_all add: step_rule_def fail)
  qed
qed

lemma fetch_shape:
  "shape 7 (git [''fetch'', ''origin'', mb]) mb s (reset_from_fetch exec repo mb s)"
proof -
  let ?c = "git [''fetch'', ''origin'', mb]"
  let ?r = "fst (exec (world s) ?c repo)"
  let ?s1 = "s\<lparr>world := snd (exec (world s) ?c repo), trace := trace s @ [(?c, ?r)]\<rparr>"
  have rc: "run_command takes_every_line exec [''git'', ''fetch'', ''origin'', mb] repo s = (answer ?r, ?s1)"
    by (simp add: run_command_git)
  show ?thesis
  proof (cases ?r rule: answer_split)
    case exit
    have eq: "reset_from_fetch exec repo mb s = (SysExit 1, ?s1)"
      by (simp add: reset_from_fetch_def rc then_run_def exit(1))
    show ?thesis unfolding eq by (rule shape_stop) (simp_all add: step_rule_def exit)
  next
    case (ok out)
    have eq: "reset_from_fetch exec repo mb s
                = reset_from_hard_reset exec repo mb (''origin/'' @ mb) ?s1"
      by (simp add: reset_from_fetch_def rc then_run_def ok(1))
    show ?thesis unfolding eq
      by (rule shape_call[OF hard_reset_shape]) (simp_all add: step_rule_def ok)
  next
    case fail
    have eq: "reset_from_fetch exec repo mb s
                = reset_from_hard_reset exec repo mb ''HEAD'' (warn (FetchFailed mb) ?s1)"
      by (simp add: reset_from_fetch_def rc then_run_def fail(1))
    show ?thesis unfolding eq
      by (rule shape_call_warn[OF hard_reset_shape])
         (simp_all add: step_rule_def warn_entry_def fail)
  qed
qed

lemma verify_shape:
  "shape 6 (git [''branch'', ''--show-current'']) mb s
     (then_run (run_command takes_every_line exec [''git'', ''branch'', ''--show-current''] repo s)
        (\<lambda>current_branch_check s2.
           if current_branch_check \<noteq> Some mb then (Returned CheckoutUnconfirmed, s2)
           else reset_from_fetch exec repo mb s2))"
  (is "shape 6 ?c mb s ?R")
proof -
  let ?r = "fst (exec (world s) ?c repo)"
  let ?s1 = "s\<lparr>world := snd (exec (world s) ?c repo), trace := trace s @ [(?c, ?r)]\<rparr>"
  have rc: "run_command takes_every_line exec [''git'', ''branch'', ''--show-current''] repo s = (answer ?r, ?s1)"
    by (simp add: run_command_git)
  show ?thesis
  proof (cases ?r rule: answer_split)
    case exit
    have eq: "?R = (SysExit 1, ?s1)"
      by (simp add: rc then_run_def exit(1))
    show ?thesis unfolding eq by (rule shape_stop) (simp_all add: step_rule_def exit)
  next
    case (ok out)
    show ?thesis
    proof (cases "out = mb")
      case True
      have eq: "?R = reset_from_fetch exec repo mb ?s1"
        by (simp add: rc then_run_def ok(1) True)
      show ?thesis unfolding eq
        by (rule shape_call[OF fetch_shape]) (simp_all add: step_rule_def ok True)
    next
      case False
      have eq: "?R = (Returned CheckoutUnconfirmed, ?s1)"
        by (simp add: rc then_run_def ok(1) False)
      show ?thesis unfolding eq
        by (rule shape_stop_failed) (simp_all add: step_rule_def ok False)
    qed
  next
    case fail
    have eq: "?R = (Returned CheckoutUnconfirmed, ?s1)"
      by (simp add: rc then_run_def fail(1))
    show ?thesis unfolding eq
      by (rule shape_stop_failed) (simp_all add: step_rule_def fail)
  qed
qed

lemma checkout_shape:
  "shape 5 (git [''checkout'', mb]) mb s (reset_from_checkout exec repo mb s)"
proof -
  let ?c = "git [''checkout'', mb]"
  let ?r = "fst (exec (world s) ?c repo)"
  let ?s1 = "s\<lparr>world := snd (exec (world s) ?c repo), trace := trace s @ [(?c, ?r)]\<rparr>"
  have rc: "run_command takes_every_line exec [''git'', ''checkout'', mb] repo s = (answer ?r, ?s1)"
    by (simp add: run_command_git)
  show ?thesis
  proof (cases ?r rule: answer_split)
    case exit
    have eq: "reset_from_checkout exec repo mb s = (SysExit 1, ?s1)"
      by (simp add: reset_from_checkout_def rc then_run_def exit(1))
    show ?thesis unfolding eq by (rule shape_stop) (simp_all add: step_rule_def exit)
  next
    case (ok out)
    have eq: "reset_from_checkout exec repo mb s =
        then_run (run_command takes_every_line exec [''git'', ''branch'', ''--show-current''] repo ?s1)
          (\<lambda>current_branch_check s2.
             if current_branch_check \<noteq> Some mb then (Returned CheckoutUnconfirmed, s2)
             else reset_from_fetch exec repo mb s2)"
      unfolding reset_from_checkout_def rc by (simp add: then_run_def ok(1))
    show ?thesis unfolding eq
      by (rule shape_call[OF verify_shape]) (simp_all add: step_rule_def ok)
  next
    case fail
    have eq: "reset_from_checkout exec repo mb s = (Returned CheckoutFailed, ?s1)"
      by (simp add: reset_from_checkout_def rc then_run_def fail(1))
    show ?thesis unfolding eq
      by (rule shape_stop_failed) (simp_all add: step_rule_def fail)
  qed
qed

lemma drop_shape:
  "shape 4 (git [''stash'', ''drop'']) mb s
     (then_run (run_command takes_every_line exec [''git'', ''stash'', ''drop''] repo s)
        (\<lambda>drop_output s2.
           reset_from_checkout exec repo mb
             (if drop_output = None then warn DropFailed s2 else s2)))"
  (is "shape 4 ?c mb s ?R")
proof -
  let ?r = "fst (exec (world s) ?c repo)"
  let ?s1 = "s\<lparr>world := snd (exec (world s) ?c repo), trace := trace s @ [(?c, ?r)]\<rparr>"
  have rc: "run_command takes_every_line exec [''git'', ''stash'', ''drop''] repo s = (answer ?r, ?s1)"
    by (simp add: run_command_git)
  show ?thesis
  proof (cases ?r rule: answer_split)
    case exit
    have eq: "?R = (SysExit 1, ?s1)"
      by (simp add: rc then_run_def exit(1))
    show ?thesis unfolding eq by (rule shape_stop) (simp_all add: step_rule_def exit)
  next
    case (ok out)
    have eq: "?R = reset_from_checkout exec repo mb ?s1"
      by (simp add: rc then_run_def ok(1))
    show ?thesis unfolding eq
      by (rule shape_call[OF checkout_shape]) (simp_all add: step_rule_def ok)
  next
    case fail
    have eq: "?R = reset_from_checkout exec repo mb (warn DropFailed ?s1)"
      by (simp add: rc then_run_def fail(1))
    show ?thesis unfolding eq
      by (rule shape_call_warn[OF checkout_shape])
         (simp_all add: step_rule_def warn_entry_def fail)
  qed
qed

lemma stash_shape:
  "shape 3 stash_push mb s (reset_from_stash exec repo mb s)"
proof -
  let ?r = "fst (exec (world s) stash_push repo)"
  let ?s1 = "s\<lparr>world := snd (exec (world s) stash_push repo),
               trace := trace s @ [(stash_push, ?r)]\<rparr>"
  have rc: "subprocess_run exec stash_push repo s = (?r, ?s1)"
    by (simp add: subprocess_run_def split: prod.splits)
  show ?thesis
  proof (cases ?r)
    case (Completed rc' out err)
    show ?thesis
    proof (cases "rc' = 0 \<and> \<not> str_contains ''No local changes'' out")
      case True
      have eq: "reset_from_stash exec repo mb s =
          then_run (run_command takes_every_line exec [''git'', ''stash'', ''drop''] repo ?s1)
            (\<lambda>drop_output s2.
               reset_from_checkout exec repo mb
                 (if drop_output = None then warn DropFailed s2 else s2))"
        unfolding reset_from_stash_def rc using True by (simp add: Completed)
      show ?thesis unfolding eq
        by (rule shape_call[OF drop_shape]) (use True in \<open>simp_all add: step_rule_def Completed\<close>)
    next
      case False
      have eq: "reset_from_stash exec repo mb s = reset_from_checkout exec repo mb ?s1"
        unfolding reset_from_stash_def rc using False by (auto simp add: Completed)
      show ?thesis unfolding eq
        by (rule shape_call[OF checkout_shape])
           (use False in \<open>auto simp add: step_rule_def Completed\<close>)
    qed
  next
    case FileNotFoundError
    have eq: "reset_from_stash exec repo mb s = (Uncaught, ?s1)"
      unfolding reset_from_stash_def rc by (simp add: FileNotFoundError)
    show ?thesis unfolding eq
      by (rule shape_stop_failed) (simp_all add: step_rule_def FileNotFoundError)
  next
    case OtherException
    have eq: "reset_from_stash exec repo mb s = (Uncaught, ?s1)"
      unfolding reset_from_stash_def rc by (simp add: OtherException)
    show ?thesis unfolding eq
      by (rule shape_stop_failed) (simp_all add: step_rule_def OtherException)
  qed
qed

lemma top_shape:
  assumes repo: "path_isdir os repo" "path_isdir os (path_join os repo ''.git'')"
  shows "\<exists>mb. (\<forall>b. fst (get_main_branch_name exec repo s) = Returned (Some b) \<longrightarrow> b = mb)
           \<and> shape 1 show_ref_main mb s (reset_repository os exec repo s)"
proof -
  let ?r1 = "fst (exec (world s) show_ref_main repo)"
  let ?s1 = "s\<lparr>world := snd (exec (world s) show_ref_main repo),
               trace := trace s @ [(show_ref_main, ?r1)]\<rparr>"
  let ?w1 = "snd (exec (world s) show_ref_main repo)"
  let ?r2 = "fst (exec ?w1 show_ref_master repo)"
  let ?s2 = "?s1\<lparr>world := snd (exec ?w1 show_ref_master repo),
               trace := trace ?s1 @ [(show_ref_master, ?r2)]\<rparr>"
  have rc1: "run_command takes_every_line exec
      [''git'', ''show-ref'', ''--verify'', ''--quiet'', ''refs/heads/main''] repo s
        = (answer ?r1, ?s1)"
    by (simp add: run_command_git)
  have rc2: "run_command takes_every_line exec
      [''git'', ''show-ref'', ''--verify'', ''--quiet'', ''refs/heads/master''] repo ?s1
        = (answer ?r2, ?s2)"
    by (simp add: run_command_git)
  have R: "reset_repository os exec repo s =
      then_run (get_main_branch_name exec repo s)
        (\<lambda>main_branch s1.
           (case main_branch of
              None \<Rightarrow> (Returned NoMainBranch, s1)
            | Some name \<Rightarrow>
                if name = [] then (Returned NoMainBranch, s1)
                else reset_from_stash exec repo name s1))"
    using repo by (simp add: reset_repository_def)
  show ?thesis
  proof (cases ?r1 rule: answer_split)
    case exit
    have g: "get_main_branch_name exec repo s = (SysExit 1, ?s1)"
      unfolding get_main_branch_name_def rc1 by (simp add: then_run_def exit(1))
    have eq: "reset_repository os exec repo s = (SysExit 1, ?s1)"
      unfolding R g by (simp add: then_run_def)
    have "shape 1 show_ref_main [] s (reset_repository os exec repo s)"
      unfolding eq by (rule shape_stop) (simp_all add: step_rule_def exit)
    then show ?thesis using g by auto
  next
    case (ok out)
    have g: "get_main_branch_name exec repo s = (Returned (Some ''main''), ?s1)"
      unfolding get_main_branch_name_def rc1 by (simp add: then_run_def ok(1))
    have eq: "reset_repository os exec repo s = reset_from_stash exec repo ''main'' ?s1"
      unfolding R g by (simp add: then_run_def)
    have "shape 1 show_ref_main ''main'' s (reset_repository os exec repo s)"
      unfolding eq by (rule shape_call[OF stash_shape]) (simp_all add: step_rule_def ok)
    then show ?thesis using g by auto
  next
    case fail
    have g0: "get_main_branch_name exec repo s =
        then_run (answer ?r2, ?s2)
          (\<lambda>r2 s2. if r2 \<noteq> None then (Returned (Some ''master''), s2) else (Returned None, s2))"
      unfolding get_main_branch_name_def rc1 by (simp add: then_run_def fail(1) rc2)
    show ?thesis
    proof (cases ?r2 rule: answer_split)
      case exit
      have g: "get_main_branch_name exec repo s = (SysExit 1, ?s2)"
        unfolding g0 by (simp add: then_run_def exit(1))
      have eq: "reset_repository os exec repo s = (SysExit 1, ?s2)"
        unfolding R g by (simp add: then_run_def)
      have "shape 2 show_ref_master [] ?s1 (SysExit 1, ?s2)"
        by (rule shape_stop) (simp_all add: step_rule_def exit)
      then have "shape 1 show_ref_main [] s (reset_repository os exec repo s)"
        unfolding eq by (rule shape_call) (simp_all add: step_rule_def fail)
      then show ?thesis using g by auto
    next
      case (ok out)
      have g: "get_main_branch_name exec repo s = (Returned (Some ''master''), ?s2)"
        unfolding g0 by (simp add: then_run_def ok(1))
      have eq: "reset_repository os exec repo s = reset_from_stash exec repo ''master'' ?s2"
        unfolding R g by (simp add: then_run_def)
      have "shape 2 show_ref_master ''master'' ?s1 (reset_from_stash exec repo ''master'' ?s2)"
        by (rule shape_call[OF stash_shape]) (simp_all add: step_rule_def ok)
      then have "shape 1 show_ref_main ''master'' s (reset_repository os exec repo s)"
        unfolding eq by (rule shape_call) (simp_all add: step_rule_def fail)
      then show ?thesis using g by auto
    next
      case fail2: fail
      have g: "get_main_branch_name exec repo s = (Returned None, ?s2)"
        unfolding g0 by (simp add: then_run_def fail2(1))
      have eq: "reset_repository os exec repo s = (Returned NoMainBranch, ?s2)"
        unfolding R g by (simp add: then_run_def)
      have "shape 2 show_ref_master [] ?s1 (Returned NoMainBranch, ?s2)"
        by (rule shape_stop_failed) (simp_all add: step_rule_def fail2)
      then have "shape 1 show_ref_main [] s (reset_repository os exec repo s)"
        unfolding eq by (rule shape_call) (simp_all add: step_rule_def fail)
      then show ?thesis using g by auto
    qed
  qed
qed

subsection \<open>Every call of a run\<close>

lemma issued_extends: "extends s s' new ws \<Longrightarrow> issued s s' = new"
  by (simp add: extends_def issued_def)

lemma issued_self [simp]: "issued s s = []"
  by (simp add: issued_def)

text \<open>What the shape of a run says about one entry of its trace.\<close>

lemma run_entry:
  assumes dec: "issued s (snd (reset_repository os exec repo s)) = pre @ e # post"
  shows "\<exists>mb. (\<forall>b. fst (get_main_branch_name exec repo s) = Returned (Some b) \<longrightarrow> b = mb)
           \<and> step_rule mb (fst (reset_repository os exec repo s)) e post
           \<and> (\<forall>e0 \<in> set pre. phase (fst e0) < phase (fst e) \<or> phase (fst e) = 11)
           \<and> (\<exists>ws. warnings (snd (reset_repository os exec repo s)) = warnings s @ ws
                  \<and> warn_entry mb ws e)"
proof (cases "path_isdir os repo \<and> path_isdir os (path_join os repo ''.git'')")
  case False
  then have "reset_repository os exec repo s = (Returned NotARepository, s)"
    by (auto simp: reset_repository_def)
  with dec show ?thesis by simp
next
  case True
  let ?R = "reset_repository os exec repo s"
  from top_shape[of os repo exec s] True obtain mb new ws where
    mb: "\<forall>b. fst (get_main_branch_name exec repo s) = Returned (Some b) \<longrightarrow> b = mb"
    and n: "extends s (snd ?R) new ws" "each_with_rest (step_rule mb (fst ?R)) new"
      "\<forall>e \<in> set new. warn_entry mb ws e"
    unfolding shape_def by blast
  have new: "new = pre @ e # post" using issued_extends[OF n(1)] dec by simp
  have all: "\<And>p x q. new = p @ x # q \<Longrightarrow> step_rule mb (fst ?R) x q"
    using n(2) unfolding each_with_rest_iff by blast
  have 1: "step_rule mb (fst ?R) e post" using all[OF new] .
  have 2: "phase (fst e0) < phase (fst e) \<or> phase (fst e) = 11" if "e0 \<in> set pre" for e0
  proof -
    from that obtain p1 p2 where "pre = p1 @ e0 # p2" by (auto simp: in_set_conv_decomp)
    then have "new = p1 @ e0 # (p2 @ e # post)" using new by simp
    from all[OF this] show ?thesis
      by (cases e0) (simp add: step_rule_def)
  qed
  have 3: "warnings (snd ?R) = warnings s @ ws" using n(1) by (simp add: extends_def)
  have 4: "warn_entry mb ws e" using n(3) new by simp
  from mb 1 2 3 4 show ?thesis by blast
qed

lemma reset_exit_code:
  assumes "fst (reset_repository os exec repo s) = SysExit n"
  shows "n = 1"
proof (cases "path_isdir os repo \<and> path_isdir os (path_join os repo ''.git'')")
  case False
  then have "reset_repository os exec repo s = (Returned NotARepository, s)"
    by (auto simp: reset_repository_def)
  with assms show ?thesis by simp
next
  case True
  with top_shape[of os repo exec s] assms show ?thesis
    unfolding shape_def by blast
qed

lemma begins_hd: "begins c rest \<Longrightarrow> rest \<noteq> [] \<and> fst (hd rest) = c"
  by (cases rest) (simp_all add: begins_def)

lemma not_succeeded_answer:
  "\<not> succeeded res \<Longrightarrow> res \<noteq> FileNotFoundError \<Longrightarrow> answer res = Returned None"
  using answer_cases[of res] by auto

text \<open>The definitions that evaluate a run in a concrete environment.\<close>

lemmas run_eval =
  reset_repository_def get_main_branch_name_def reset_from_stash_def reset_from_checkout_def
  reset_from_fetch_def reset_from_hard_reset_def reset_from_clean_def delete_other_branches_def
  run_command_def subprocess_run_def then_run_def scripted_def os_repo_def initial_state_def
  issued_def strip_def isspace_def succeeded_def warn_def branches_of_def splitlines_def
  takes_every_line_def Let_def
  is_linebreak_def

section \<open>The claims\<close>



text \<open>
  Claim C9. When the reference query for \<^verbatim>\<open>main\<close> succeeds,
  \<open>get_main_branch_name\<close> returns \<^verbatim>\<open>main\<close> and that query is the only command it
  issues. The query for \<^verbatim>\<open>master\<close> is issued exactly when the query for
  \<^verbatim>\<open>main\<close> was answered with \<^verbatim>\<open>None\<close>.
\<close>

theorem main_is_preferred:
  "(succeeded (fst (exec (world s) show_ref_main repo)) \<longrightarrow>
      fst (get_main_branch_name exec repo s) = Returned (Some ''main'')
      \<and> map fst (issued s (snd (get_main_branch_name exec repo s))) = [show_ref_main])
   \<and> (show_ref_master \<in> set (map fst (issued s (snd (get_main_branch_name exec repo s))))
        \<longleftrightarrow>
      fst (run_command takes_every_line exec
             [''git'', ''show-ref'', ''--verify'', ''--quiet'', ''refs/heads/main''] repo s)
        = Returned None)"
proof -
  let ?r1 = "fst (exec (world s) show_ref_main repo)"
  show ?thesis
  proof (cases ?r1 rule: answer_split)
    case exit
    then show ?thesis
      by (simp add: get_main_branch_name_def run_command_git then_run_def issued_def)
  next
    case (ok out)
    then show ?thesis
      by (simp add: get_main_branch_name_def run_command_git then_run_def issued_def)
  next
    case fail
    then show ?thesis
      by (simp add: get_main_branch_name_def run_command_git then_run_def issued_def
          split: outcome.splits)
  qed
qed

theorem main_is_preferred_witness:
  "succeeded (fst (scripted [Completed 0 [] []] show_ref_main ''repo''))
   \<and> fst (get_main_branch_name scripted ''repo'' (initial_state [Completed 0 [] []]))
       = Returned (Some ''main'')
   \<and> map fst (issued (initial_state [Completed 0 [] []])
         (snd (get_main_branch_name scripted ''repo'' (initial_state [Completed 0 [] []]))))
       = [show_ref_main]"
  using main_is_preferred[where exec=scripted and s="initial_state [Completed 0 [] []]"
      and repo="''repo''"]
  by (simp add: scripted_def initial_state_def succeeded_def)

text \<open>
  Claim C2. In a repository where neither reference query succeeds, the run ends with the
  missing main branch (or with exit status 1 when the executable is not found), the only
  commands it issues are the two reference queries, and when those queries leave the
  environment as it is, the run leaves it as it is.
\<close>

theorem missing_trunk_stops_the_run:
  assumes "path_isdir os repo" and "path_isdir os (path_join os repo ''.git'')"
    and "\<not> succeeded (fst (exec (world s) show_ref_main repo))"
    and "\<not> succeeded
           (fst (exec (snd (exec (world s) show_ref_main repo)) show_ref_master repo))"
  shows "fst (reset_repository os exec repo s)
           = (if fst (exec (world s) show_ref_main repo) = FileNotFoundError
                 \<or> fst (exec (snd (exec (world s) show_ref_main repo)) show_ref_master repo)
                     = FileNotFoundError
              then SysExit 1 else Returned NoMainBranch)
       \<and> set (map fst (issued s (snd (reset_repository os exec repo s))))
           \<subseteq> {show_ref_main, show_ref_master}
       \<and> ((\<forall>w. snd (exec w show_ref_main repo) = w \<and> snd (exec w show_ref_master repo) = w)
            \<longrightarrow> world (snd (reset_repository os exec repo s)) = world s)"
proof -
  let ?w1 = "snd (exec (world s) show_ref_main repo)"
  let ?r1 = "fst (exec (world s) show_ref_main repo)"
  let ?r2 = "fst (exec ?w1 show_ref_master repo)"
  let ?s1 = "s\<lparr>world := ?w1, trace := trace s @ [(show_ref_main, ?r1)]\<rparr>"
  let ?s2 = "s\<lparr>world := snd (exec ?w1 show_ref_master repo),
               trace := trace s @ [(show_ref_main, ?r1), (show_ref_master, ?r2)]\<rparr>"
  from assms(3) consider (exit) "?r1 = FileNotFoundError"
    | (fail) "answer ?r1 = Returned None" "?r1 \<noteq> FileNotFoundError"
    by (cases ?r1 rule: answer_split) auto
  then show ?thesis
  proof cases
    case exit
    have R: "reset_repository os exec repo s = (SysExit 1, ?s1)"
      using assms(1,2) exit
      by (simp add: reset_repository_def get_main_branch_name_def run_command_git then_run_def)
    show ?thesis unfolding R using exit by (simp add: issued_def)
  next
    case fail
    from assms(4) consider (exit2) "?r2 = FileNotFoundError"
      | (fail2) "answer ?r2 = Returned None" "?r2 \<noteq> FileNotFoundError"
      by (cases ?r2 rule: answer_split) auto
    then show ?thesis
    proof cases
      case exit2
      have R: "reset_repository os exec repo s = (SysExit 1, ?s2)"
        using assms(1,2) fail exit2
        by (simp add: reset_repository_def get_main_branch_name_def run_command_git then_run_def)
      show ?thesis unfolding R using exit2 by (simp add: issued_def)
    next
      case fail2
      have R: "reset_repository os exec repo s = (Returned NoMainBranch, ?s2)"
        using assms(1,2) fail fail2
        by (simp add: reset_repository_def get_main_branch_name_def run_command_git then_run_def)
      show ?thesis unfolding R using fail fail2 by (simp add: issued_def)
    qed
  qed
qed

theorem missing_trunk_stops_the_run_witness:
  "path_isdir os_repo ''repo'' \<and> path_isdir os_repo (path_join os_repo ''repo'' ''.git'')
   \<and> \<not> succeeded (fst (always_failing () show_ref_main ''repo''))
   \<and> \<not> succeeded (fst (always_failing (snd (always_failing () show_ref_main ''repo''))
                          show_ref_master ''repo''))
   \<and> (\<forall>w. snd (always_failing w show_ref_main ''repo'') = w
           \<and> snd (always_failing w show_ref_master ''repo'') = w)
   \<and> fst (reset_repository os_repo always_failing ''repo'' (initial_state ()))
       = Returned NoMainBranch
   \<and> set (map fst (issued (initial_state ())
              (snd (reset_repository os_repo always_failing ''repo'' (initial_state ())))))
       \<subseteq> {show_ref_main, show_ref_master}
   \<and> world (snd (reset_repository os_repo always_failing ''repo'' (initial_state ()))) = ()"
  using missing_trunk_stops_the_run[where os=os_repo and repo="''repo''" and s="initial_state ()"
      and exec=always_failing]
  by (simp add: os_repo_def always_failing_def succeeded_def initial_state_def)

text \<open>
  Claim C3. When the hard reset of a run does not succeed, it is the last command of the
  run: nothing is issued after it, no clean, branch listing or branch deletion was issued
  before it, and the run ends with the failed hard reset (or with exit status 1 when the
  executable is not found).
\<close>

theorem failed_hard_reset_ends_the_run:
  assumes "issued s (snd (reset_repository os exec repo s))
             = pre @ (git [''reset'', ''--hard'', t], res) # post"
    and "\<not> succeeded res"
  shows "post = []
       \<and> (\<forall>c \<in> set pre. fst c \<noteq> git [''clean'', ''-fdx''] \<and> fst c \<noteq> git [''branch'']
               \<and> (\<forall>b. fst c \<noteq> git [''branch'', ''-D'', b] \<and> fst c \<noteq> git [''branch'', ''-d'', b]))
       \<and> fst (reset_repository os exec repo s)
           = (if res = FileNotFoundError then SysExit 1 else Returned HardResetFailed)"
proof -
  from run_entry[OF assms(1)] obtain mb where
    r: "step_rule mb (fst (reset_repository os exec repo s))
          (git [''reset'', ''--hard'', t], res) post"
    and o: "\<forall>e0 \<in> set pre. phase (fst e0) < phase (git [''reset'', ''--hard'', t])
              \<or> phase (git [''reset'', ''--hard'', t]) = 11"
    by auto
  have 1: "post = [] \<and> fst (reset_repository os exec repo s)
           = (if res = FileNotFoundError then SysExit 1 else Returned HardResetFailed)"
    using r assms(2) by (simp add: step_rule_def)
  have 2: "phase (fst c) < 8" if "c \<in> set pre" for c
    using o that by auto
  have 3: "fst c \<noteq> git [''clean'', ''-fdx''] \<and> fst c \<noteq> git [''branch'']
       \<and> (\<forall>b. fst c \<noteq> git [''branch'', ''-D'', b] \<and> fst c \<noteq> git [''branch'', ''-d'', b])"
    if "c \<in> set pre" for c
    using 2[OF that] by (auto simp del: phase_simps dest!: arg_cong[where f=phase] simp: phase_simps)
  from 1 3 show ?thesis by blast
qed

theorem failed_hard_reset_ends_the_run_witness:
  "issued (initial_state reset_fails_script)
       (snd (reset_repository os_repo scripted ''repo'' (initial_state reset_fails_script)))
     = [(show_ref_main, Completed 0 [] []),
        (stash_push, Completed 0 ''No local changes to save'' []),
        (git [''checkout'', ''main''], Completed 0 [] []),
        (git [''branch'', ''--show-current''], Completed 0 ''main'' []),
        (git [''fetch'', ''origin'', ''main''], Completed 0 [] [])]
       @ (git [''reset'', ''--hard'', ''origin/main''], Completed 128 [] ''fatal'') # []
   \<and> \<not> succeeded (Completed 128 [] ''fatal'')
   \<and> fst (reset_repository os_repo scripted ''repo'' (initial_state reset_fails_script))
       = Returned HardResetFailed"
proof -
  have dec: "issued (initial_state reset_fails_script)
       (snd (reset_repository os_repo scripted ''repo'' (initial_state reset_fails_script)))
     = [(show_ref_main, Completed 0 [] []),
        (stash_push, Completed 0 ''No local changes to save'' []),
        (git [''checkout'', ''main''], Completed 0 [] []),
        (git [''branch'', ''--show-current''], Completed 0 ''main'' []),
        (git [''fetch'', ''origin'', ''main''], Completed 0 [] [])]
       @ (git [''reset'', ''--hard'', ''origin/main''], Completed 128 [] ''fatal'') # []"
    by (simp add: run_eval reset_fails_script_def)
  have nok: "\<not> succeeded (Completed 128 [] ''fatal'')" by (simp add: succeeded_def)
  from failed_hard_reset_ends_the_run[OF dec nok] dec nok show ?thesis by simp
qed

text \<open>
  Claim C4. In a run that issues the fetch of the resolved main branch: when the fetch
  succeeds, the next command is the hard reset to \<^verbatim>\<open>origin/<main branch>\<close>; when
  the fetch ends with another return code or an exception other than a missing
  executable, the run goes on, the next command is the hard reset to \<^verbatim>\<open>HEAD\<close>,
  and the warning about the fetch is printed.
\<close>

theorem fetch_outcome_chooses_the_reset_target:
  assumes "fst (get_main_branch_name exec repo s) = Returned (Some mb)"
    and "issued s (snd (reset_repository os exec repo s))
           = pre @ (git [''fetch'', ''origin'', mb], res) # post"
  shows "(succeeded res \<longrightarrow>
            post \<noteq> [] \<and> fst (hd post) = git [''reset'', ''--hard'', ''origin/'' @ mb])
       \<and> (\<not> succeeded res \<and> res \<noteq> FileNotFoundError \<longrightarrow>
            post \<noteq> [] \<and> fst (hd post) = git [''reset'', ''--hard'', ''HEAD'']
            \<and> FetchFailed mb \<in> set (warnings (snd (reset_repository os exec repo s))))"
proof -
  from run_entry[OF assms(2)] assms(1) obtain ws where
    r: "step_rule mb (fst (reset_repository os exec repo s))
          (git [''fetch'', ''origin'', mb], res) post"
    and w: "warnings (snd (reset_repository os exec repo s)) = warnings s @ ws"
      "warn_entry mb ws (git [''fetch'', ''origin'', mb], res)"
    by auto
  have 1: "post \<noteq> [] \<and> fst (hd post) = git [''reset'', ''--hard'', ''origin/'' @ mb]"
    if "succeeded res"
    using r that by (intro begins_hd) (simp add: step_rule_def)
  have 2: "post \<noteq> [] \<and> fst (hd post) = git [''reset'', ''--hard'', ''HEAD'']"
    if "\<not> succeeded res" "res \<noteq> FileNotFoundError"
    using r that by (intro begins_hd) (simp add: step_rule_def)
  have 3: "FetchFailed mb \<in> set (warnings (snd (reset_repository os exec repo s)))"
    if "\<not> succeeded res" "res \<noteq> FileNotFoundError"
    using w not_succeeded_answer[OF that] by (simp add: warn_entry_def)
  from 1 2 3 show ?thesis by blast
qed

theorem fetch_outcome_chooses_the_reset_target_witness:
  "fst (get_main_branch_name scripted ''repo'' (initial_state fetch_fails_script))
     = Returned (Some ''main'')
   \<and> issued (initial_state fetch_fails_script)
       (snd (reset_repository os_repo scripted ''repo'' (initial_state fetch_fails_script)))
     = [(show_ref_main, Completed 0 [] []),
        (stash_push, Completed 0 ''No local changes to save'' []),
        (git [''checkout'', ''main''], Completed 0 [] []),
        (git [''branch'', ''--show-current''], Completed 0 ''main'' [])]
       @ (git [''fetch'', ''origin'', ''main''], Completed 1 [] ''fatal'')
       # [(git [''reset'', ''--hard'', ''HEAD''], Completed 0 [] []),
          (git [''clean'', ''-fdx''], Completed 0 [] []),
          (git [''branch''], Completed 0 ''* main'' [])]
   \<and> \<not> succeeded (Completed 1 [] ''fatal'') \<and> Completed 1 [] ''fatal'' \<noteq> FileNotFoundError
   \<and> FetchFailed ''main''
       \<in> set (warnings
               (snd (reset_repository os_repo scripted ''repo'' (initial_state fetch_fails_script))))
   \<and> fst (get_main_branch_name scripted ''repo'' (initial_state reset_fails_script))
     = Returned (Some ''main'')
   \<and> issued (initial_state reset_fails_script)
       (snd (reset_repository os_repo scripted ''repo'' (initial_state reset_fails_script)))
     = [(show_ref_main, Completed 0 [] []),
        (stash_push, Completed 0 ''No local changes to save'' []),
        (git [''checkout'', ''main''], Completed 0 [] []),
        (git [''branch'', ''--show-current''], Completed 0 ''main'' [])]
       @ (git [''fetch'', ''origin'', ''main''], Completed 0 [] [])
       # [(git [''reset'', ''--hard'', ''origin/main''], Completed 128 [] ''fatal'')]
   \<and> succeeded (Completed 0 [] [])"
proof -
  have t: "fst (get_main_branch_name scripted ''repo'' (initial_state fetch_fails_script))
     = Returned (Some ''main'')"
    by (simp add: run_eval fetch_fails_script_def)
  have dec: "issued (initial_state fetch_fails_script)
       (snd (reset_repository os_repo scripted ''repo'' (initial_state fetch_fails_script)))
     = [(show_ref_main, Completed 0 [] []),
        (stash_push, Completed 0 ''No local changes to save'' []),
        (git [''checkout'', ''main''], Completed 0 [] []),
        (git [''branch'', ''--show-current''], Completed 0 ''main'' [])]
       @ (git [''fetch'', ''origin'', ''main''], Completed 1 [] ''fatal'')
       # [(git [''reset'', ''--hard'', ''HEAD''], Completed 0 [] []),
          (git [''clean'', ''-fdx''], Completed 0 [] []),
          (git [''branch''], Completed 0 ''* main'' [])]"
    by (simp add: run_eval fetch_fails_script_def)
  have t2: "fst (get_main_branch_name scripted ''repo'' (initial_state reset_fails_script))
     = Returned (Some ''main'')"
    by (simp add: run_eval reset_fails_script_def)
  have dec2: "issued (initial_state reset_fails_script)
       (snd (reset_repository os_repo scripted ''repo'' (initial_state reset_fails_script)))
     = [(show_ref_main, Completed 0 [] []),
        (stash_push, Completed 0 ''No local changes to save'' []),
        (git [''checkout'', ''main''], Completed 0 [] []),
        (git [''branch'', ''--show-current''], Completed 0 ''main'' [])]
       @ (git [''fetch'', ''origin'', ''main''], Completed 0 [] [])
       # [(git [''reset'', ''--hard'', ''origin/main''], Completed 128 [] ''fatal'')]"
    by (simp add: run_eval reset_fails_script_def)
  from fetch_outcome_chooses_the_reset_target[OF t dec]
    fetch_outcome_chooses_the_reset_target[OF t2 dec2] t dec t2 dec2
  show ?thesis by (simp add: succeeded_def)
qed

text \<open>
  Claim C7. In a run that issues the checkout of the resolved main branch: when the
  checkout succeeds, the next command asks for the current branch; when the answer is
  that branch, the fetch follows, and when it is anything else, or no answer at all, the
  query is the last command of the run and the run ends with the unconfirmed checkout.
  When the checkout does not succeed, it is the last command of the run.
\<close>

theorem checkout_is_confirmed:
  assumes "fst (get_main_branch_name exec repo s) = Returned (Some mb)"
    and "issued s (snd (reset_repository os exec repo s))
           = pre @ (git [''checkout'', mb], res) # post"
  shows "if succeeded res
         then \<exists>q rest. post = (git [''branch'', ''--show-current''], q) # rest
                \<and> (if answer q = Returned (Some mb)
                    then rest \<noteq> [] \<and> fst (hd rest) = git [''fetch'', ''origin'', mb]
                    else rest = []
                       \<and> fst (reset_repository os exec repo s)
                           = (if q = FileNotFoundError then SysExit 1
                              else Returned CheckoutUnconfirmed))
         else post = []
            \<and> fst (reset_repository os exec repo s)
                = (if res = FileNotFoundError then SysExit 1 else Returned CheckoutFailed)"
proof (cases "succeeded res")
  case False
  from run_entry[OF assms(2)] obtain mb' where
    "step_rule mb' (fst (reset_repository os exec repo s)) (git [''checkout'', mb], res) post"
    by auto
  then show ?thesis using False by (simp add: step_rule_def)
next
  case True
  from run_entry[OF assms(2)] obtain mb' where
    "step_rule mb' (fst (reset_repository os exec repo s)) (git [''checkout'', mb], res) post"
    by auto
  then have "begins (git [''branch'', ''--show-current'']) post"
    using True by (simp add: step_rule_def)
  then obtain q rest where post: "post = (git [''branch'', ''--show-current''], q) # rest"
    by (cases post) (auto simp: begins_def)
  have dec: "issued s (snd (reset_repository os exec repo s))
      = (pre @ [(git [''checkout'', mb], res)]) @ (git [''branch'', ''--show-current''], q) # rest"
    using assms(2) post by simp
  from run_entry[OF dec] assms(1) have
    r: "step_rule mb (fst (reset_repository os exec repo s))
          (git [''branch'', ''--show-current''], q) rest"
    by auto
  have "if answer q = Returned (Some mb)
        then rest \<noteq> [] \<and> fst (hd rest) = git [''fetch'', ''origin'', mb]
        else rest = []
           \<and> fst (reset_repository os exec repo s)
               = (if q = FileNotFoundError then SysExit 1 else Returned CheckoutUnconfirmed)"
    using r by (auto simp: step_rule_def dest: begins_hd)
  then show ?thesis using True post by simp
qed

theorem checkout_is_confirmed_witness:
  "fst (get_main_branch_name scripted ''repo'' (initial_state unconfirmed_script))
     = Returned (Some ''main'')
   \<and> issued (initial_state unconfirmed_script)
       (snd (reset_repository os_repo scripted ''repo'' (initial_state unconfirmed_script)))
     = [(show_ref_main, Completed 0 [] []),
        (stash_push, Completed 0 ''No local changes to save'' [])]
       @ (git [''checkout'', ''main''], Completed 0 [] [])
       # [(git [''branch'', ''--show-current''], Completed 0 ''feature'' [])]
   \<and> succeeded (Completed 0 [] [])
   \<and> answer (Completed 0 ''feature'' []) \<noteq> Returned (Some ''main'')
   \<and> fst (reset_repository os_repo scripted ''repo'' (initial_state unconfirmed_script))
       = Returned CheckoutUnconfirmed"
proof -
  have t: "fst (get_main_branch_name scripted ''repo'' (initial_state unconfirmed_script))
     = Returned (Some ''main'')"
    by (simp add: run_eval unconfirmed_script_def)
  have dec: "issued (initial_state unconfirmed_script)
       (snd (reset_repository os_repo scripted ''repo'' (initial_state unconfirmed_script)))
     = [(show_ref_main, Completed 0 [] []),
        (stash_push, Completed 0 ''No local changes to save'' [])]
       @ (git [''checkout'', ''main''], Completed 0 [] [])
       # [(git [''branch'', ''--show-current''], Completed 0 ''feature'' [])]"
    by (simp add: run_eval unconfirmed_script_def)
  from checkout_is_confirmed[OF t dec] t dec
  show ?thesis by (simp add: succeeded_def answer_def strip_def isspace_def)
qed




text \<open>
  Claim C10. When the branch listing of a run is answered with \<^verbatim>\<open>None\<close> or with
  the empty string, the listing is the last command of the run, no branch deletion was
  issued, and the run ends at the end of the function with the loop not run.
\<close>

theorem empty_listing_is_a_failed_listing:
  assumes "issued s (snd (reset_repository os exec repo s)) = pre @ (git [''branch''], res) # post"
    and "answer res = Returned None \<or> answer res = Returned (Some [])"
  shows "post = []
       \<and> fst (reset_repository os exec repo s) = Returned (ResetComplete None)
       \<and> (\<forall>c \<in> set pre. \<forall>b. fst c \<noteq> git [''branch'', ''-D'', b]
                                \<and> fst c \<noteq> git [''branch'', ''-d'', b])"
proof -
  from run_entry[OF assms(1)] obtain mb where
    r: "step_rule mb (fst (reset_repository os exec repo s)) (git [''branch''], res) post"
    and o: "\<forall>e0 \<in> set pre. phase (fst e0) < phase (git [''branch''])
              \<or> phase (git [''branch'']) = 11"
    by auto
  have nf: "res \<noteq> FileNotFoundError" using assms(2) by auto
  have 1: "post = [] \<and> fst (reset_repository os exec repo s) = Returned (ResetComplete None)"
    using r assms(2) nf by (auto simp: step_rule_def)
  have 2: "phase (fst c) < 10" if "c \<in> set pre" for c
    using o that by auto
  have 3: "\<forall>b. fst c \<noteq> git [''branch'', ''-D'', b] \<and> fst c \<noteq> git [''branch'', ''-d'', b]"
    if "c \<in> set pre" for c
    using 2[OF that] by (auto simp del: phase_simps dest!: arg_cong[where f=phase] simp: phase_simps)
  from 1 3 show ?thesis by blast
qed

theorem empty_listing_is_a_failed_listing_witness:
  "issued (initial_state empty_listing_script)
       (snd (reset_repository os_repo scripted ''repo'' (initial_state empty_listing_script)))
     = [(show_ref_main, Completed 0 [] []),
        (stash_push, Completed 0 ''No local changes to save'' []),
        (git [''checkout'', ''main''], Completed 0 [] []),
        (git [''branch'', ''--show-current''], Completed 0 ''main'' []),
        (git [''fetch'', ''origin'', ''main''], Completed 0 [] []),
        (git [''reset'', ''--hard'', ''origin/main''], Completed 0 [] []),
        (git [''clean'', ''-fdx''], Completed 0 [] [])]
       @ (git [''branch''], Completed 0 [] []) # []
   \<and> answer (Completed 0 [] []) = Returned (Some [])
   \<and> fst (reset_repository os_repo scripted ''repo'' (initial_state empty_listing_script))
       = Returned (ResetComplete None)"
proof -
  have dec: "issued (initial_state empty_listing_script)
       (snd (reset_repository os_repo scripted ''repo'' (initial_state empty_listing_script)))
     = [(show_ref_main, Completed 0 [] []),
        (stash_push, Completed 0 ''No local changes to save'' []),
        (git [''checkout'', ''main''], Completed 0 [] []),
        (git [''branch'', ''--show-current''], Completed 0 ''main'' []),
        (git [''fetch'', ''origin'', ''main''], Completed 0 [] []),
        (git [''reset'', ''--hard'', ''origin/main''], Completed 0 [] []),
        (git [''clean'', ''-fdx''], Completed 0 [] [])]
       @ (git [''branch''], Completed 0 [] []) # []"
    by (simp add: run_eval empty_listing_script_def)
  have a: "answer (Completed 0 [] []) = Returned None
           \<or> answer (Completed 0 [] []) = Returned (Some [])"
    by (simp add: answer_def strip_def)
  from empty_listing_is_a_failed_listing[OF dec a] dec a
  show ?thesis by (simp add: answer_def strip_def)
qed

text \<open>
  Claim C6. In a run whose branch listing succeeds with output that is not empty: every
  command after the listing is a forced or a lenient deletion of a listed branch other
  than the main branch; no command of the run deletes the main branch; a lenient deletion
  comes directly after the failed forced deletion of the same branch, and every failed
  forced deletion is followed by the lenient one; a branch whose lenient deletion fails
  is printed as a warning; and when the executable is found at every call, the forced
  deletions are those of the listed branches other than the main branch, in order, and
  the run ends at the end of the function with the failed branches collected.
\<close>

theorem branch_deletion_policy:
  assumes trunk: "fst (get_main_branch_name exec repo s) = Returned (Some mb)"
    and dec: "issued s (snd (reset_repository os exec repo s))
           = pre @ (git [''branch''], Completed 0 out err) # post"
    and listing: "strip out \<noteq> []"
  shows "(\<forall>c \<in> set post. \<exists>b \<in> set (branches_of (strip out)). b \<noteq> mb
            \<and> (fst c = git [''branch'', ''-D'', b] \<or> fst c = git [''branch'', ''-d'', b]))
       \<and> (\<forall>c \<in> set (issued s (snd (reset_repository os exec repo s))).
            fst c \<noteq> git [''branch'', ''-D'', mb] \<and> fst c \<noteq> git [''branch'', ''-d'', mb])
       \<and> (\<forall>p b q r. post = p @ (git [''branch'', ''-d'', b], q) # r \<longrightarrow>
            (\<exists>p' q'. p = p' @ [(git [''branch'', ''-D'', b], q')]
                \<and> \<not> succeeded q' \<and> q' \<noteq> FileNotFoundError))
       \<and> (\<forall>p b q r. post = p @ (git [''branch'', ''-D'', b], q) # r
              \<and> \<not> succeeded q \<and> q \<noteq> FileNotFoundError \<longrightarrow>
            r \<noteq> [] \<and> fst (hd r) = git [''branch'', ''-d'', b])
       \<and> (\<forall>b q. (git [''branch'', ''-d'', b], q) \<in> set post
              \<and> \<not> succeeded q \<and> q \<noteq> FileNotFoundError \<longrightarrow>
            DeleteFailed b \<in> set (warnings (snd (reset_repository os exec repo s))))
       \<and> ((\<forall>c \<in> set post. snd c \<noteq> FileNotFoundError) \<longrightarrow>
            List.map_filter forced_target post
              = filter (\<lambda>b. b \<noteq> mb) (branches_of (strip out))
            \<and> (\<exists>k fs. fst (reset_repository os exec repo s)
                          = Returned (ResetComplete (Some (k, fs)))
                  \<and> (\<forall>b q. (git [''branch'', ''-d'', b], q) \<in> set post
                         \<and> \<not> succeeded q \<longrightarrow> b \<in> set fs)))"
proof -
  let ?R = "reset_repository os exec repo s"
  have a: "answer (Completed 0 out err) = Returned (Some (strip out))"
    by (simp add: answer_def)
  from run_entry[OF dec] trunk have
    r: "step_rule mb (fst ?R) (git [''branch''], Completed 0 out err) post"
    by auto
  then have pol: "policy mb (branches_of (strip out)) post"
    and fin: "if \<exists>c \<in> set post. snd c = FileNotFoundError then fst ?R = SysExit 1
              else \<exists>k fs. fst ?R = Returned (ResetComplete (Some (k, fs)))
                     \<and> set fs = failures post"
    using listing by (simp_all add: step_rule_def a)
  have 1: "\<forall>c \<in> set post. \<exists>b \<in> set (branches_of (strip out)). b \<noteq> mb
            \<and> (fst c = git [''branch'', ''-D'', b] \<or> fst c = git [''branch'', ''-d'', b])"
    using policy_commands[OF pol] by blast
  have 2: "fst c \<noteq> git [''branch'', ''-D'', mb] \<and> fst c \<noteq> git [''branch'', ''-d'', mb]"
    if "c \<in> set (issued s (snd ?R))" for c
  proof -
    from that obtain p1 p2 where d: "issued s (snd ?R) = p1 @ c # p2"
      by (auto simp: in_set_conv_decomp)
    from run_entry[OF d] trunk have "step_rule mb (fst ?R) c p2" by auto
    then have "phase (fst c) = 11 \<longrightarrow>
        fst c \<noteq> git [''branch'', ''-D'', mb] \<and> fst c \<noteq> git [''branch'', ''-d'', mb]"
      by (cases c) (simp add: step_rule_def)
    then show ?thesis by auto
  qed
  have 3: "\<exists>p' q'. p = p' @ [(git [''branch'', ''-D'', b], q')]
                \<and> \<not> succeeded q' \<and> q' \<noteq> FileNotFoundError"
    if "post = p @ (git [''branch'', ''-d'', b], q) # r" for p b q r
    using policy_lenient_after_forced[OF pol that] .
  have 4: "r \<noteq> [] \<and> fst (hd r) = git [''branch'', ''-d'', b]"
    if "post = p @ (git [''branch'', ''-D'', b], q) # r" "\<not> succeeded q" "q \<noteq> FileNotFoundError"
    for p b q r
    using policy_forced_then_lenient[OF pol that] .
  have 5: "DeleteFailed b \<in> set (warnings (snd ?R))"
    if "(git [''branch'', ''-d'', b], q) \<in> set post" "\<not> succeeded q" "q \<noteq> FileNotFoundError"
    for b q
  proof -
    from that(1) obtain p1 p2 where "post = p1 @ (git [''branch'', ''-d'', b], q) # p2"
      by (auto simp: in_set_conv_decomp)
    then have d: "issued s (snd ?R)
        = (pre @ (git [''branch''], Completed 0 out err) # p1)
            @ (git [''branch'', ''-d'', b], q) # p2"
      using dec by simp
    from run_entry[OF d] trunk obtain ws where
      w: "warnings (snd ?R) = warnings s @ ws" "warn_entry mb ws (git [''branch'', ''-d'', b], q)"
      by auto
    from w(2) not_succeeded_answer[OF that(2,3)] have "DeleteFailed b \<in> set ws"
      by (simp add: warn_entry_def)
    then show ?thesis using w(1) by simp
  qed
  have 6: "List.map_filter forced_target post = filter (\<lambda>b. b \<noteq> mb) (branches_of (strip out))
            \<and> (\<exists>k fs. fst ?R = Returned (ResetComplete (Some (k, fs)))
                  \<and> (\<forall>b q. (git [''branch'', ''-d'', b], q) \<in> set post
                         \<and> \<not> succeeded q \<longrightarrow> b \<in> set fs))"
    if nf: "\<forall>c \<in> set post. snd c \<noteq> FileNotFoundError"
  proof -
    from fin nf obtain k fs where f: "fst ?R = Returned (ResetComplete (Some (k, fs)))"
      "set fs = failures post" by auto
    have "b \<in> set fs" if "(git [''branch'', ''-d'', b], q) \<in> set post" "\<not> succeeded q" for b q
    proof -
      have "q \<noteq> FileNotFoundError" using nf that(1) by force
      from not_succeeded_answer[OF that(2) this] that(1) show ?thesis
        unfolding f(2) failures_def by blast
    qed
    with f(1) policy_forced_targets[OF pol nf] show ?thesis by blast
  qed
  from 1 2 3 4 5 6 show ?thesis by blast
qed

theorem branch_deletion_policy_witness:
  "fst (get_main_branch_name scripted ''repo'' (initial_state pruning_script))
     = Returned (Some ''main'')
   \<and> issued (initial_state pruning_script)
       (snd (reset_repository os_repo scripted ''repo'' (initial_state pruning_script)))
     = [(show_ref_main, Completed 0 [] []),
        (stash_push, Completed 0 ''No local changes to save'' []),
        (git [''checkout'', ''main''], Completed 0 [] []),
        (git [''branch'', ''--show-current''], Completed 0 ''main'' []),
        (git [''fetch'', ''origin'', ''main''], Completed 0 [] []),
        (git [''reset'', ''--hard'', ''origin/main''], Completed 0 [] []),
        (git [''clean'', ''-fdx''], Completed 0 [] [])]
       @ (git [''branch''], Completed 0 two_branches_listing [])
       # [(git [''branch'', ''-D'', ''feature/a''], Completed 0 ''Deleted branch feature/a'' []),
          (git [''branch'', ''-D'', ''feature/b''], Completed 1 [] ''error''),
          (git [''branch'', ''-d'', ''feature/b''], Completed 1 [] ''error'')]
   \<and> strip two_branches_listing \<noteq> []
   \<and> branches_of (strip two_branches_listing) = [''feature/a'', ''main'', ''feature/b'']
   \<and> DeleteFailed ''feature/b''
       \<in> set (warnings
               (snd (reset_repository os_repo scripted ''repo'' (initial_state pruning_script))))
   \<and> fst (reset_repository os_repo scripted ''repo'' (initial_state pruning_script))
       = Returned (ResetComplete (Some (1, [''feature/b''])))"
proof -
  have t: "fst (get_main_branch_name scripted ''repo'' (initial_state pruning_script))
     = Returned (Some ''main'')"
    by (simp add: run_eval pruning_script_def)
  have dec: "issued (initial_state pruning_script)
       (snd (reset_repository os_repo scripted ''repo'' (initial_state pruning_script)))
     = [(show_ref_main, Completed 0 [] []),
        (stash_push, Completed 0 ''No local changes to save'' []),
        (git [''checkout'', ''main''], Completed 0 [] []),
        (git [''branch'', ''--show-current''], Completed 0 ''main'' []),
        (git [''fetch'', ''origin'', ''main''], Completed 0 [] []),
        (git [''reset'', ''--hard'', ''origin/main''], Completed 0 [] []),
        (git [''clean'', ''-fdx''], Completed 0 [] [])]
       @ (git [''branch''], Completed 0 two_branches_listing [])
       # [(git [''branch'', ''-D'', ''feature/a''], Completed 0 ''Deleted branch feature/a'' []),
          (git [''branch'', ''-D'', ''feature/b''], Completed 1 [] ''error''),
          (git [''branch'', ''-d'', ''feature/b''], Completed 1 [] ''error'')]"
    by (simp add: run_eval pruning_script_def two_branches_listing_def)
  have l: "strip two_branches_listing \<noteq> []"
    by (simp add: two_branches_listing_def strip_def isspace_def)
  have b: "branches_of (strip two_branches_listing) = [''feature/a'', ''main'', ''feature/b'']"
    by (simp add: two_branches_listing_def run_eval)
  have r: "fst (reset_repository os_repo scripted ''repo'' (initial_state pruning_script))
       = Returned (ResetComplete (Some (1, [''feature/b''])))"
    by (simp add: run_eval pruning_script_def two_branches_listing_def)
  from branch_deletion_policy[OF t dec l] t dec l b r
  show ?thesis by (simp add: succeeded_def)
qed

text \<open>
  Claim C1, as amended. The exit status of the script is 0 when the command line asks
  for help and 2 when the parser does not accept it. With an accepted command line it
  is 1 when the executable is not a file, or the path does not exist or is not a
  directory; and when these checks pass and the path holds a \<^verbatim>\<open>.git\<close> directory, it
  is 0 exactly when \<open>reset_repository\<close> returns, from the end of the function or from
  the \<^verbatim>\<open>return\<close> of a fatal abort, and 1 when the run is cut short by
  \<^verbatim>\<open>sys.exit(1)\<close> or by an uncaught exception.
\<close>

theorem exit_status_of_the_script:
  "(args = Help \<longrightarrow> fst (script_main os exec args s) = 0)
   \<and> (args = UsageError \<longrightarrow> fst (script_main os exec args s) = 2)
   \<and> (\<forall>p. args = RepoPath p \<or> args = NoRepoPath \<and> p = ''./test_project'' \<longrightarrow>
         (\<not> path_isfile os GIT_EXECUTABLE \<or> \<not> path_exists os (path_abspath os p)
            \<or> \<not> path_isdir os (path_abspath os p)
          \<longrightarrow> fst (script_main os exec args s) = 1)
       \<and> (path_isfile os GIT_EXECUTABLE \<and> path_exists os (path_abspath os p)
            \<and> path_isdir os (path_abspath os p)
            \<and> path_isdir os (path_join os (path_abspath os p) ''.git'')
          \<longrightarrow> fst (script_main os exec args s)
                = (if \<exists>e. fst (reset_repository os exec (path_abspath os p) s) = Returned e
                   then 0 else 1)))"
proof -
  have body: "fst (check_and_reset os exec p s)
        = (if \<exists>e. fst (reset_repository os exec (path_abspath os p) s) = Returned e
           then 0 else 1)"
    if "path_isfile os GIT_EXECUTABLE" "path_exists os (path_abspath os p)"
      "path_isdir os (path_abspath os p)" for p
  proof -
    obtain r s' where R: "reset_repository os exec (path_abspath os p) s = (r, s')"
      by (cases "reset_repository os exec (path_abspath os p) s")
    have "n = 1" if "r = SysExit n" for n
      using reset_exit_code[of os exec "path_abspath os p" s n] R that by simp
    then show ?thesis using that
      by (cases r) (auto simp: check_and_reset_def R Let_def)
  qed
  have fail: "fst (check_and_reset os exec p s) = 1"
    if "\<not> path_isfile os GIT_EXECUTABLE \<or> \<not> path_exists os (path_abspath os p)
          \<or> \<not> path_isdir os (path_abspath os p)" for p
    using that by (auto simp: check_and_reset_def Let_def)
  show ?thesis
  proof (cases args)
    case (RepoPath q)
    then show ?thesis using body[of q] fail[of q] by (simp add: script_main_def)
  next
    case NoRepoPath
    then show ?thesis using body[of "''./test_project''"] fail[of "''./test_project''"]
      by (simp add: script_main_def)
  next
    case Help
    then show ?thesis by (simp add: script_main_def)
  next
    case UsageError
    then show ?thesis by (simp add: script_main_def)
  qed
qed

theorem exit_status_of_the_script_witness:
  "fst (reset_repository os_repo scripted ''./test_project'' (initial_state success_script))
     = Returned (ResetComplete (Some (0, [])))
   \<and> fst (script_main os_repo scripted NoRepoPath (initial_state success_script)) = 0
   \<and> fst (reset_repository os_repo scripted ''repo'' (initial_state reset_fails_script))
     = Returned HardResetFailed
   \<and> fst (script_main os_repo scripted (RepoPath ''repo'') (initial_state reset_fails_script)) = 0
   \<and> \<not> path_isfile os_without_git GIT_EXECUTABLE
   \<and> fst (script_main os_without_git scripted (RepoPath ''repo'') (initial_state [])) = 1
   \<and> fst (script_main os_without_git scripted Help (initial_state [])) = 0
   \<and> fst (script_main os_without_git scripted UsageError (initial_state [])) = 2"
proof -
  have r: "fst (reset_repository os_repo scripted ''./test_project'' (initial_state success_script))
     = Returned (ResetComplete (Some (0, [])))"
    by (simp add: run_eval success_script_def)
  have r2: "fst (reset_repository os_repo scripted ''repo'' (initial_state reset_fails_script))
     = Returned HardResetFailed"
    by (simp add: run_eval reset_fails_script_def)
  have g: "\<not> path_isfile os_without_git GIT_EXECUTABLE" by (simp add: os_without_git_def)
  from exit_status_of_the_script[of NoRepoPath os_repo scripted "initial_state success_script"]
    exit_status_of_the_script[of "RepoPath ''repo''" os_repo scripted
      "initial_state reset_fails_script"]
    exit_status_of_the_script[of "RepoPath ''repo''" os_without_git scripted "initial_state []"]
    exit_status_of_the_script[of Help os_without_git scripted "initial_state []"]
    exit_status_of_the_script[of UsageError os_without_git scripted "initial_state []"]
    r r2 g
  show ?thesis by (simp add: os_repo_def)
qed

text \<open>
  Claim C1 as stated does not hold: a run that stops for the missing main branch, and a
  run on a directory that is not a repository, both leave the script with status 0.
\<close>

theorem fatal_abort_exits_with_status_zero:
  "fst (reset_repository os_repo always_failing ''repo'' (initial_state ()))
     = Returned NoMainBranch
   \<and> fst (script_main os_repo always_failing (RepoPath ''repo'') (initial_state ())) = 0
   \<and> fst (reset_repository os_plain_dir always_failing ''work'' (initial_state ()))
     = Returned NotARepository
   \<and> fst (script_main os_plain_dir always_failing (RepoPath ''work'') (initial_state ())) = 0"
  by (simp add: script_main_def check_and_reset_def reset_repository_def
      get_main_branch_name_def run_command_def subprocess_run_def then_run_def
      always_failing_def os_repo_def os_plain_dir_def initial_state_def takes_every_line_def
      Let_def)

end
